theory Spec2Isabelle
  imports Main
begin

section \<open>Python values, strings and exceptions\<close>

text \<open>
  The repository is a tutorial on asynchronous programming: a notebook of small
  coroutines (\<open>src/async_programming_guide.ipynb\<close>) and a guide whose running example
  is a blocking weather server with its test client (the listing under
  \<^emph>\<open>Real-world Example: Multi-client Weather Service\<close> and the main program under
  \<^emph>\<open>Performance Impact Demonstration\<close>). The Python of both is embedded here
  function by function, under the names of the source.

  A Python \<open>str\<close> is a sequence of Unicode code points and a \<open>bytes\<close> object a
  sequence of octets, so the two get different types. \<open>lit\<close> writes an ASCII string
  literal of the source as a \<open>str\<close>.
\<close>

type_synonym str = "nat list"

type_synonym bytes = "char list"

definition lit :: "string \<Rightarrow> str" where
  "lit s = map of_char s"

text \<open>
  The values that flow through the weather service are what \<open>json.loads\<close> can return
  and \<open>json.dumps\<close> can print. A \<open>dict\<close> keeps its insertion order, so it is an
  association list with distinct keys.

  A Python \<open>float\<close> is an IEEE 754 double. \<open>Finite s m e\<close> is the number
  \<open>m * 2 ^ e\<close>, negated when \<open>s\<close> holds. The functions below build it with
  \<open>m < 2 ^ 53\<close> and \<open>- 1074 \<le> e \<le> 971\<close>, and with \<open>2 ^ 52 \<le> m\<close> unless
  \<open>e = - 1074\<close> (the subnormal numbers and the two zeros \<open>Finite s 0 (- 1074)\<close>), so
  that a double has one representation.
\<close>

datatype pyfloat =
    Finite bool nat int
  | Infinite bool
  | NotANumber

datatype pyval =
    PyNone
  | PyBool bool
  | PyInt int
  | PyFloat pyfloat
  | PyStr str
  | PyList "pyval list"
  | PyDict "(str \<times> pyval) list"

text \<open>
  Exceptions are values. The last two constructors are not Python exceptions:
  \<open>OutOfFuel\<close> is the answer of the decoder below under its bound on recursive calls
  (\<open>json_loads\<close> never gives it, lemma \<open>json_loads_error\<close>), and \<open>PeerFailed\<close> is what a
  client sees of a server that died.
\<close>

datatype error =
    ValueError str
  | KeyError str
  | TypeError
  | JSONDecodeError
  | UnicodeDecodeError
  | UnicodeEncodeError
  | OSError
  | ConnectionRefusedError
  | StopAsyncIteration
  | OutOfFuel
  | PeerFailed error


subsection \<open>\<open>bytes.decode()\<close> and \<open>str.encode()\<close>: strict UTF-8\<close>

text \<open>
  Both are called without arguments in the source, which means UTF-8 with strict error
  handling. Decoding rejects a stray continuation octet, a truncated sequence, an
  overlong form, a surrogate and a code point above \<open>0x10FFFF\<close>; encoding rejects a
  surrogate (a \<open>str\<close> holds no code point above \<open>0x10FFFF\<close>, and the encoder
  rejects one too).
\<close>

definition cont :: "nat \<Rightarrow> bool" where
  "cont b = (128 \<le> b \<and> b \<le> 191)"

definition cons_ok :: "nat \<Rightarrow> error + str \<Rightarrow> error + str" where
  "cons_ok c r = (case r of Inl e \<Rightarrow> Inl e | Inr s \<Rightarrow> Inr (c # s))"

fun utf8_points :: "nat list \<Rightarrow> error + str" where
  "utf8_points [] = Inr []"
| "utf8_points (b0 # r) =
     (if b0 < 128 then cons_ok b0 (utf8_points r)
      else if 192 \<le> b0 \<and> b0 \<le> 223 then
        (case r of
           b1 # r1 \<Rightarrow>
             let cp = (b0 - 192) * 64 + (b1 - 128)
             in if cont b1 \<and> 128 \<le> cp then cons_ok cp (utf8_points r1)
                else Inl UnicodeDecodeError
         | _ \<Rightarrow> Inl UnicodeDecodeError)
      else if 224 \<le> b0 \<and> b0 \<le> 239 then
        (case r of
           b1 # b2 # r2 \<Rightarrow>
             let cp = (b0 - 224) * 4096 + (b1 - 128) * 64 + (b2 - 128)
             in if cont b1 \<and> cont b2 \<and> 2048 \<le> cp \<and> \<not> (55296 \<le> cp \<and> cp \<le> 57343)
                then cons_ok cp (utf8_points r2)
                else Inl UnicodeDecodeError
         | _ \<Rightarrow> Inl UnicodeDecodeError)
      else if 240 \<le> b0 \<and> b0 \<le> 247 then
        (case r of
           b1 # b2 # b3 # r3 \<Rightarrow>
             let cp = (b0 - 240) * 262144 + (b1 - 128) * 4096 + (b2 - 128) * 64 + (b3 - 128)
             in if cont b1 \<and> cont b2 \<and> cont b3 \<and> 65536 \<le> cp \<and> cp \<le> 1114111
                then cons_ok cp (utf8_points r3)
                else Inl UnicodeDecodeError
         | _ \<Rightarrow> Inl UnicodeDecodeError)
      else Inl UnicodeDecodeError)"

definition decode :: "bytes \<Rightarrow> error + str" where
  "decode bs = utf8_points (map of_char bs)"

definition utf8_octets :: "nat \<Rightarrow> error + nat list" where
  "utf8_octets cp =
     (if cp < 128 then Inr [cp]
      else if cp < 2048 then Inr [192 + cp div 64, 128 + cp mod 64]
      else if 55296 \<le> cp \<and> cp \<le> 57343 then Inl UnicodeEncodeError
      else if cp < 65536 then Inr [224 + cp div 4096, 128 + cp div 64 mod 64, 128 + cp mod 64]
      else if cp \<le> 1114111 then
        Inr [240 + cp div 262144, 128 + cp div 4096 mod 64, 128 + cp div 64 mod 64, 128 + cp mod 64]
      else Inl UnicodeEncodeError)"

fun encode :: "str \<Rightarrow> error + bytes" where
  "encode [] = Inr []"
| "encode (cp # s) =
     (case utf8_octets cp of
        Inl e \<Rightarrow> Inl e
      | Inr bs \<Rightarrow>
          (case encode s of
             Inl e \<Rightarrow> Inl e
           | Inr rest \<Rightarrow> Inr (map char_of bs @ rest)))"

subsection \<open>\<open>float(text)\<close> and \<open>repr\<close> of a float\<close>

text \<open>
  \<open>digits n\<close> is the decimal numeral of a natural number, as character codes.
\<close>

fun digits :: "nat \<Rightarrow> str" where
  "digits n = (if n < 10 then [48 + n] else digits (n div 10) @ [48 + n mod 10])"

declare digits.simps [simp del]

text \<open>
  CPython converts a decimal numeral to the nearest double, a tie going to the even
  significand, a magnitude of \<open>2 ^ 1024 - 2 ^ 970\<close> or more to infinity, and what is
  too small to zero. The conversion is exact arithmetic on fractions of natural
  numbers: \<open>nearest_double a b\<close> rounds \<open>a / b\<close>, and \<open>float_of_decimal neg d x\<close> is
  the float of \<open>d * 10 ^ x\<close>, negated when \<open>neg\<close> holds. A numeral of \<open>k\<close> digits
  with \<open>309 < k + x\<close> is at least \<open>10 ^ 309\<close> and one with \<open>k + x < - 324\<close> is less
  than \<open>10 ^ - 324\<close>: these are settled by the count of their digits, as CPython
  does, so that an exponent of any size is evaluated at once.
\<close>

fun bit_length :: "nat \<Rightarrow> nat" where
  "bit_length n = (if n = 0 then 0 else Suc (bit_length (n div 2)))"

declare bit_length.simps [simp del]

definition round_half_even :: "nat \<Rightarrow> nat \<Rightarrow> nat" where
  "round_half_even a b =
     (if 2 * (a mod b) < b then a div b
      else if b < 2 * (a mod b) then a div b + 1
      else if even (a div b) then a div b
      else a div b + 1)"

text \<open>
  \<open>scale base a b p\<close> is the fraction \<open>a / (b * base ^ p)\<close>, for a negative \<open>p\<close> too.
\<close>

definition scale :: "nat \<Rightarrow> nat \<Rightarrow> nat \<Rightarrow> int \<Rightarrow> nat \<times> nat" where
  "scale base a b p = (if 0 \<le> p then (a, b * base ^ nat p) else (a * base ^ nat (- p), b))"

definition nearest_double :: "nat \<Rightarrow> nat \<Rightarrow> (nat \<times> int) option" where
  "nearest_double a b =
     (let e1 = int (bit_length a) - int (bit_length b) - 53;
          e2 = (case scale 2 a b e1 of (c, d) \<Rightarrow> if 2 ^ 53 \<le> c div d then e1 + 1 else e1);
          e = max e2 (- 1074);
          m = (case scale 2 a b e of (c, d) \<Rightarrow> round_half_even c d)
      in if m = 2 ^ 53 then (if 971 \<le> e then None else Some (2 ^ 52, e + 1))
         else if 971 < e then None
         else Some (m, e))"

definition float_of_decimal :: "bool \<Rightarrow> nat \<Rightarrow> int \<Rightarrow> pyfloat" where
  "float_of_decimal neg d x =
     (if d = 0 then Finite neg 0 (- 1074)
      else if 309 < int (length (digits d)) + x then Infinite neg
      else if int (length (digits d)) + x < - 324 then Finite neg 0 (- 1074)
      else
        (case (case scale 10 d 1 (- x) of (a, b) \<Rightarrow> nearest_double a b) of
           None \<Rightarrow> Infinite neg
         | Some (m, e) \<Rightarrow> Finite neg m e))"

text \<open>
  \<open>repr\<close> of a finite float (\<open>float.__repr__\<close>, which \<open>json.dumps\<close> calls) prints the
  shortest decimal numeral that \<open>float\<close> reads back as the same double, and of the
  numerals of that length the one nearest to the double; seventeen digits are the
  most it prints. \<open>decimal_point a b\<close> is the position of the decimal point of
  \<open>a / b\<close> (the \<open>p\<close> with \<open>10 ^ (p - 1) \<le> a / b < 10 ^ p\<close>), \<open>decimal_at n m e\<close>
  writes \<open>m * 2 ^ e\<close> as \<open>(c / d) * 10 ^ p\<close> with \<open>n\<close> digits before the point of
  \<open>c / d\<close>, and \<open>shortest n m e\<close> tries \<open>n\<close> digits, then more.
\<close>

definition decimal_point :: "nat \<Rightarrow> nat \<Rightarrow> int" where
  "decimal_point a b =
     (if b \<le> a then int (length (digits (a div b)))
      else
        (let l = length (digits (b div a))
         in if b \<le> a * 10 ^ (l - 1) then 2 - int l else 1 - int l))"

definition decimal_at :: "nat \<Rightarrow> nat \<Rightarrow> int \<Rightarrow> nat \<times> nat \<times> int" where
  "decimal_at n m e =
     (case scale 2 m 1 (- e) of
        (a, b) \<Rightarrow>
          (case scale 10 a b (decimal_point a b - int n) of
             (c, d) \<Rightarrow> (c, d, decimal_point a b - int n)))"

function shortest :: "nat \<Rightarrow> nat \<Rightarrow> int \<Rightarrow> nat \<times> int" where
  "shortest n m e =
     (case decimal_at n m e of
        (c, d, p) \<Rightarrow>
          if 17 \<le> n \<or> float_of_decimal False (round_half_even c d) p = Finite False m e
          then (round_half_even c d, p)
          else if float_of_decimal False (2 * (c div d) + 1 - round_half_even c d) p
                    = Finite False m e
          then (2 * (c div d) + 1 - round_half_even c d, p)
          else shortest (Suc n) m e)"
  by pat_completeness auto
termination
  by (relation "measure (\<lambda>(n, m, e). 17 - n)") auto

declare shortest.simps [simp del]

text \<open>
  The digits are laid out as \<open>repr\<close> does: with an exponent when the decimal point
  would stand more than sixteen places behind the first digit or more than three zeros
  before it (the exponent signed and of two digits at least), otherwise in positional
  notation, an integral value getting \<open>.0\<close>. In the character codes, 45 is the minus
  sign, 43 the plus sign, 46 the full stop, 48 the digit zero and 101 the letter e.
\<close>

definition strip_zeros :: "str \<Rightarrow> str" where
  "strip_zeros ds = rev (dropWhile (\<lambda>c. c = 48) (rev ds))"

definition two_digits :: "nat \<Rightarrow> str" where
  "two_digits n = (if n < 10 then 48 # digits n else digits n)"

definition format_short :: "str \<Rightarrow> int \<Rightarrow> str" where
  "format_short ds decpt =
     (if decpt \<le> - 4 \<or> 16 < decpt then
        take 1 ds @ (if length ds \<le> 1 then [] else 46 # drop 1 ds)
        @ [101] @ (if decpt - 1 < 0 then [45] else [43]) @ two_digits (nat \<bar>decpt - 1\<bar>)
      else if decpt \<le> 0 then [48, 46] @ replicate (nat (- decpt)) 48 @ ds
      else if length ds \<le> nat decpt then ds @ replicate (nat decpt - length ds) 48 @ [46, 48]
      else take (nat decpt) ds @ [46] @ drop (nat decpt) ds)"

definition float_repr :: "bool \<Rightarrow> nat \<Rightarrow> int \<Rightarrow> str" where
  "float_repr neg m e =
     (if neg then [45] else []) @
     (if m = 0 then [48, 46, 48]
      else
        (case shortest 1 m e of
           (k, p) \<Rightarrow> format_short (strip_zeros (digits k)) (int (length (digits k)) + p)))"

subsection \<open>\<open>json.dumps\<close> with its default arguments\<close>

text \<open>
  \<open>json.dumps(obj)\<close> as the weather service calls it: \<open>ensure_ascii=True\<close>, a
  comma and a space between items, a colon and a space after a key, keys in insertion
  order. Every character outside
  the printable ASCII range, the quote and the backslash are escaped, characters above
  the basic plane as a surrogate pair. A finite float is printed by its \<open>repr\<close>; with
  the default \<open>allow_nan=True\<close> the other floats are printed as \<open>NaN\<close>, \<open>Infinity\<close>
  and \<open>-Infinity\<close>.
\<close>

definition int_repr :: "int \<Rightarrow> str" where
  "int_repr i = (if i < 0 then 45 # digits (nat (- i)) else digits (nat i))"

definition hex_digit :: "nat \<Rightarrow> nat" where
  "hex_digit d = (if d < 10 then 48 + d else 87 + d)"

definition hex4 :: "nat \<Rightarrow> str" where
  "hex4 n = [hex_digit (n div 4096 mod 16), hex_digit (n div 256 mod 16),
             hex_digit (n div 16 mod 16), hex_digit (n mod 16)]"

definition escape_ascii :: "nat \<Rightarrow> str" where
  "escape_ascii c =
     (if c = 34 then [92, 34]
      else if c = 92 then [92, 92]
      else if c = 10 then [92, 110]
      else if c = 13 then [92, 114]
      else if c = 9 then [92, 116]
      else if c = 8 then [92, 98]
      else if c = 12 then [92, 102]
      else if 32 \<le> c \<and> c \<le> 126 then [c]
      else if c < 65536 then [92, 117] @ hex4 c
      else [92, 117] @ hex4 (55296 + (c - 65536) div 1024 mod 1024)
         @ [92, 117] @ hex4 (56320 + (c - 65536) mod 1024))"

definition encode_basestring_ascii :: "str \<Rightarrow> str" where
  "encode_basestring_ascii s = 34 # concat (map escape_ascii s) @ [34]"

fun join :: "str \<Rightarrow> str list \<Rightarrow> str" where
  "join sep [] = []"
| "join sep [x] = x"
| "join sep (x # y # ys) = x @ sep @ join sep (y # ys)"

definition floatstr :: "pyfloat \<Rightarrow> str" where
  "floatstr f =
     (case f of
        Finite neg m e \<Rightarrow> float_repr neg m e
      | Infinite neg \<Rightarrow> (if neg then lit ''-Infinity'' else lit ''Infinity'')
      | NotANumber \<Rightarrow> lit ''NaN'')"

fun json_dumps :: "pyval \<Rightarrow> str" where
  "json_dumps PyNone = lit ''null''"
| "json_dumps (PyBool b) = (if b then lit ''true'' else lit ''false'')"
| "json_dumps (PyInt i) = int_repr i"
| "json_dumps (PyFloat f) = floatstr f"
| "json_dumps (PyStr s) = encode_basestring_ascii s"
| "json_dumps (PyList xs) = lit ''['' @ join (lit '', '') (map json_dumps xs) @ lit '']''"
| "json_dumps (PyDict kvs) =
     lit ''{'' @ join (lit '', '')
        (map (\<lambda>kv. encode_basestring_ascii (fst kv) @ lit '': '' @ json_dumps (snd kv)) kvs)
     @ lit ''}''"

subsection \<open>\<open>json.loads\<close> with its default arguments\<close>

text \<open>
  The decoder follows CPython's scanner: insignificant whitespace is space, tab, line
  feed and carriage return; strings are scanned strictly (no raw control character),
  with the escapes for the quote, the backslash, the solidus, b, f, n, r, t and
  u with four hexadecimal digits, and surrogate pairs joined;
  numbers follow the grammar \<open>-?(0|[1-9][0-9]*)(\.[0-9]+)?([eE][-+]?[0-9]+)?\<close>, a
  numeral with a fraction or an exponent giving a float and every other an integer;
  the literals \<open>NaN\<close>, \<open>Infinity\<close> and \<open>-Infinity\<close> are accepted and give floats;
  a repeated key keeps its first position and its last value; text after the value is
  an error, and so is a leading byte order mark. In the character codes below, 34 is
  the double quote, 92 the backslash, 117 the letter u, 123 and 125 the braces, 91 and 93
  the brackets, 44 the comma, 58 the colon, 45 the minus sign and 46 the full stop.

  The mutually recursive functions take a bound on their calls (twice the length of
  the text, plus one, is never used up) and answer \<open>OutOfFuel\<close> under it. The
  interpreter's own limits are not modelled: its recursion limit (a thousand nested
  calls by default) and its limit of 4300 digits for an integer literal. What the
  weather service parses is at most 1024 octets and stays under both defaults.
\<close>

fun skip_ws :: "str \<Rightarrow> str" where
  "skip_ws [] = []"
| "skip_ws (c # cs) = (if c = 32 \<or> c = 9 \<or> c = 10 \<or> c = 13 then skip_ws cs else c # cs)"

definition hexval :: "nat \<Rightarrow> nat option" where
  "hexval c =
     (if 48 \<le> c \<and> c \<le> 57 then Some (c - 48)
      else if 97 \<le> c \<and> c \<le> 102 then Some (c - 87)
      else if 65 \<le> c \<and> c \<le> 70 then Some (c - 55)
      else None)"

definition decode_uXXXX :: "str \<Rightarrow> nat option" where
  "decode_uXXXX s =
     (case map hexval (take 4 s) of
        [Some x, Some y, Some z, Some w] \<Rightarrow> Some (((x * 16 + y) * 16 + z) * 16 + w)
      | _ \<Rightarrow> None)"

definition backslash :: "nat \<Rightarrow> nat option" where
  "backslash e =
     (if e = 34 then Some 34
      else if e = 92 then Some 92
      else if e = 47 then Some 47
      else if e = 98 then Some 8
      else if e = 102 then Some 12
      else if e = 110 then Some 10
      else if e = 114 then Some 13
      else if e = 116 then Some 9
      else None)"

definition prepend :: "nat \<Rightarrow> error + (str \<times> str) \<Rightarrow> error + (str \<times> str)" where
  "prepend c r = (case r of Inl e \<Rightarrow> Inl e | Inr (s, rest) \<Rightarrow> Inr (c # s, rest))"

text \<open>
  \<open>scanstring\<close> starts after the opening quote and returns the string's characters
  and the text after the closing quote.
\<close>

function scanstring :: "str \<Rightarrow> error + (str \<times> str)" where
  "scanstring [] = Inl JSONDecodeError"
| "scanstring (c # cs) =
     (if c = 34 then Inr ([], cs)
      else if c = 92 then
        (case cs of
           [] \<Rightarrow> Inl JSONDecodeError
         | e # cs' \<Rightarrow>
             if e = 117 then
               (case decode_uXXXX cs' of
                  None \<Rightarrow> Inl JSONDecodeError
                | Some uni \<Rightarrow>
                    if 55296 \<le> uni \<and> uni \<le> 56319 \<and> take 2 (drop 4 cs') = [92, 117] then
                      (case decode_uXXXX (drop 6 cs') of
                         None \<Rightarrow> Inl JSONDecodeError
                       | Some uni2 \<Rightarrow>
                           if 56320 \<le> uni2 \<and> uni2 \<le> 57343
                           then prepend (65536 + (uni - 55296) * 1024 + (uni2 - 56320))
                                  (scanstring (drop 10 cs'))
                           else prepend uni (scanstring (drop 4 cs')))
                    else prepend uni (scanstring (drop 4 cs')))
             else
               (case backslash e of
                  None \<Rightarrow> Inl JSONDecodeError
                | Some ch \<Rightarrow> prepend ch (scanstring cs')))
      else if c < 32 then Inl JSONDecodeError
      else prepend c (scanstring cs))"
  by pat_completeness auto
termination
  by (relation "measure length") auto

definition is_digit :: "nat \<Rightarrow> bool" where
  "is_digit c = (48 \<le> c \<and> c \<le> 57)"

definition starts_with :: "str \<Rightarrow> str \<Rightarrow> bool" where
  "starts_with p s = (take (length p) s = p)"

definition int_of_digits :: "str \<Rightarrow> int" where
  "int_of_digits ds = foldl (\<lambda>a d. 10 * a + (int d - 48)) 0 ds"

text \<open>
  \<open>match_number\<close> follows the scanner's \<open>_match_number_unicode\<close>: an optional minus
  sign, the integer part, a fraction when a full stop and a digit follow, an exponent
  when the letter e, an optional sign and a digit follow. With a fraction or an exponent
  the numeral is passed to \<open>float\<close>, otherwise to \<open>int\<close>. \<open>scan_fraction\<close> returns the
  digits of the fraction (none when there is no fraction) and the text behind it,
  \<open>scan_exponent\<close> the exponent and the text behind it.
\<close>

definition scan_fraction :: "str \<Rightarrow> str \<times> str" where
  "scan_fraction s =
     (case s of
        p # d # _ \<Rightarrow>
          if p = 46 \<and> is_digit d then (takeWhile is_digit (tl s), dropWhile is_digit (tl s))
          else ([], s)
      | _ \<Rightarrow> ([], s))"

definition scan_exponent :: "str \<Rightarrow> (int \<times> str) option" where
  "scan_exponent s =
     (if starts_with [101] s \<or> starts_with [69] s then
        (let signed = (starts_with [43] (tl s) \<or> starts_with [45] (tl s));
             ds = (if signed then tl (tl s) else tl s)
         in case ds of
              [] \<Rightarrow> None
            | d # _ \<Rightarrow>
                if \<not> is_digit d then None
                else Some (if starts_with [45] (tl s) then - int_of_digits (takeWhile is_digit ds)
                           else int_of_digits (takeWhile is_digit ds),
                           dropWhile is_digit ds))
      else None)"

definition match_number :: "str \<Rightarrow> error + (pyval \<times> str)" where
  "match_number s =
     (let neg = starts_with [45] s;
          s1 = (if neg then tl s else s)
      in case s1 of
           [] \<Rightarrow> Inl JSONDecodeError
         | c # r \<Rightarrow>
             if \<not> is_digit c then Inl JSONDecodeError
             else
               let ds = (if c = 48 then [c] else c # takeWhile is_digit r);
                   rest = (if c = 48 then r else dropWhile is_digit r)
               in case scan_fraction rest of
                    (frac, rest_f) \<Rightarrow>
                      (case scan_exponent rest_f of
                         None \<Rightarrow>
                           if frac = []
                           then Inr (PyInt (if neg then - int_of_digits ds else int_of_digits ds),
                                     rest)
                           else Inr (PyFloat (float_of_decimal neg (nat (int_of_digits (ds @ frac)))
                                                (- int (length frac))),
                                     rest_f)
                       | Some (ex, rest_e) \<Rightarrow>
                           Inr (PyFloat (float_of_decimal neg (nat (int_of_digits (ds @ frac)))
                                           (ex - int (length frac))),
                                rest_e)))"

fun dict_set :: "str \<Rightarrow> pyval \<Rightarrow> (str \<times> pyval) list \<Rightarrow> (str \<times> pyval) list" where
  "dict_set k v [] = [(k, v)]"
| "dict_set k v ((k', v') # d) = (if k' = k then (k, v) # d else (k', v') # dict_set k v d)"

text \<open>
  \<open>scan_once\<close> reads one value at the start of the text. \<open>parse_array\<close> and
  \<open>parse_object\<close> run after the opening bracket or brace and the whitespace behind it,
  when the collection is not empty; they carry the elements read so far.
\<close>

fun scan_once :: "nat \<Rightarrow> str \<Rightarrow> error + (pyval \<times> str)"
  and parse_array :: "nat \<Rightarrow> str \<Rightarrow> pyval list \<Rightarrow> error + (pyval \<times> str)"
  and parse_object :: "nat \<Rightarrow> str \<Rightarrow> (str \<times> pyval) list \<Rightarrow> error + (pyval \<times> str)"
where
  "scan_once 0 s = Inl OutOfFuel"
| "scan_once (Suc n) s =
     (case s of
        [] \<Rightarrow> Inl JSONDecodeError
      | c # cs \<Rightarrow>
          if c = 34 then
            (case scanstring cs of
               Inl e \<Rightarrow> Inl e
             | Inr (x, rest) \<Rightarrow> Inr (PyStr x, rest))
          else if c = 123 then
            (if starts_with [125] (skip_ws cs) then Inr (PyDict [], tl (skip_ws cs))
             else parse_object n (skip_ws cs) [])
          else if c = 91 then
            (if starts_with [93] (skip_ws cs) then Inr (PyList [], tl (skip_ws cs))
             else parse_array n (skip_ws cs) [])
          else if starts_with (lit ''null'') s then Inr (PyNone, drop 4 s)
          else if starts_with (lit ''true'') s then Inr (PyBool True, drop 4 s)
          else if starts_with (lit ''false'') s then Inr (PyBool False, drop 5 s)
          else if starts_with (lit ''NaN'') s then Inr (PyFloat NotANumber, drop 3 s)
          else if starts_with (lit ''Infinity'') s then Inr (PyFloat (Infinite False), drop 8 s)
          else if starts_with (lit ''-Infinity'') s then Inr (PyFloat (Infinite True), drop 9 s)
          else match_number s)"
| "parse_array 0 s acc = Inl OutOfFuel"
| "parse_array (Suc n) s acc =
     (case scan_once n s of
        Inl e \<Rightarrow> Inl e
      | Inr (v, rest) \<Rightarrow>
          if starts_with [93] (skip_ws rest) then Inr (PyList (acc @ [v]), tl (skip_ws rest))
          else if starts_with [44] (skip_ws rest)
          then parse_array n (skip_ws (tl (skip_ws rest))) (acc @ [v])
          else Inl JSONDecodeError)"
| "parse_object 0 s acc = Inl OutOfFuel"
| "parse_object (Suc n) s acc =
     (if \<not> starts_with [34] s then Inl JSONDecodeError
      else
        (case scanstring (tl s) of
           Inl e \<Rightarrow> Inl e
         | Inr (key, rest) \<Rightarrow>
             if \<not> starts_with [58] (skip_ws rest) then Inl JSONDecodeError
             else
               (case scan_once n (skip_ws (tl (skip_ws rest))) of
                  Inl e \<Rightarrow> Inl e
                | Inr (v, rest2) \<Rightarrow>
                    if starts_with [125] (skip_ws rest2)
                    then Inr (PyDict (dict_set key v acc), tl (skip_ws rest2))
                    else if starts_with [44] (skip_ws rest2)
                    then parse_object n (skip_ws (tl (skip_ws rest2))) (dict_set key v acc)
                    else Inl JSONDecodeError)))"

definition json_loads :: "str \<Rightarrow> error + pyval" where
  "json_loads s =
     (if starts_with [65279] s then Inl JSONDecodeError
      else
        (case scan_once (2 * length s + 1) (skip_ws s) of
           Inl e \<Rightarrow> Inl e
         | Inr (obj, rest) \<Rightarrow> if skip_ws rest = [] then Inr obj else Inl JSONDecodeError))"

text \<open>
  Subscription \<open>obj[key]\<close> with a string key: a dictionary looks the key up and
  raises \<open>KeyError\<close> when it is missing; every other value of \<open>pyval\<close> raises
  \<open>TypeError\<close> (a list and a string take integer indices, the rest cannot be
  subscripted).
\<close>

definition getitem :: "pyval \<Rightarrow> str \<Rightarrow> error + pyval" where
  "getitem obj key =
     (case obj of
        PyDict d \<Rightarrow> (case map_of d key of None \<Rightarrow> Inl (KeyError key) | Some v \<Rightarrow> Inr v)
      | _ \<Rightarrow> Inl TypeError)"

section \<open>The blocking weather service\<close>

subsection \<open>Sockets\<close>

text \<open>
  One end of a TCP connection: the octets the peer has sent and this end has not read
  yet, the data of every \<open>send\<close> call in order, and whether this end was closed.
  \<open>recv n\<close> returns at most \<open>n\<close> of the unread octets: the request and the response of
  the demo are each written by a single \<open>send\<close> over the loopback interface, and they
  are taken to arrive whole. A \<open>recv\<close> that finds nothing returns the empty \<open>bytes\<close>, as
  it does when the peer has shut the connection down. \<open>send\<close> transmits all of its
  argument. Both raise \<open>OSError\<close> on a closed socket.
\<close>

record sock =
  rx :: bytes
  tx :: "bytes list"
  closed :: bool

definition recv :: "nat \<Rightarrow> sock \<Rightarrow> error + (bytes \<times> sock)" where
  "recv n s =
     (if closed s then Inl OSError
      else Inr (take n (rx s), s\<lparr>rx := drop n (rx s)\<rparr>))"

definition send :: "bytes \<Rightarrow> sock \<Rightarrow> error + sock" where
  "send bs s =
     (if closed s then Inl OSError
      else Inr (s\<lparr>tx := tx s @ [bs]\<rparr>))"

definition close :: "sock \<Rightarrow> sock" where
  "close s = s\<lparr>closed := True\<rparr>"

subsection \<open>\<open>get_weather_data\<close> and \<open>handle_client\<close>\<close>

text \<open>
  \<open>get_weather_data(city)\<close> (lines 79 to 86 of the guide) sleeps two seconds and
  returns a dictionary literal. The first component of the result is the time spent in
  \<open>time.sleep\<close>, in milliseconds.
\<close>

definition get_weather_data :: "pyval \<Rightarrow> nat \<times> (str \<times> pyval) list" where
  "get_weather_data city =
     (2000,
      [(lit ''city'', city),
       (lit ''temperature'', PyInt 20),
       (lit ''conditions'', PyStr (lit ''sunny''))])"

text \<open>
  \<open>handle_client(client_socket)\<close> (lines 88 to 99): read at most 1024 octets, decode
  them, parse the JSON text, take the value under \<open>city\<close>, fetch the weather, send its
  JSON text encoded, close. The result is the outcome (the milliseconds slept, or the exception
  that escaped) and the socket as the call left it: an exception leaves it open.
\<close>

definition handle_client :: "sock \<Rightarrow> (error + nat) \<times> sock" where
  "handle_client client_socket =
     (case recv 1024 client_socket of
        Inl e \<Rightarrow> (Inl e, client_socket)
      | Inr (raw, s1) \<Rightarrow>
          (case decode raw of
             Inl e \<Rightarrow> (Inl e, s1)
           | Inr data \<Rightarrow>
               (case json_loads data of
                  Inl e \<Rightarrow> (Inl e, s1)
                | Inr request \<Rightarrow>
                    (case getitem request (lit ''city'') of
                       Inl e \<Rightarrow> (Inl e, s1)
                     | Inr city \<Rightarrow>
                         (case get_weather_data city of
                            (ms, weather) \<Rightarrow>
                              (case encode (json_dumps (PyDict weather)) of
                                 Inl e \<Rightarrow> (Inl e, s1)
                               | Inr response \<Rightarrow>
                                   (case send response s1 of
                                      Inl e \<Rightarrow> (Inl e, s1)
                                    | Inr s2 \<Rightarrow> (Inr ms, close s2))))))))"

subsection \<open>\<open>run_weather_server\<close>\<close>

text \<open>
  \<open>run_weather_server()\<close> (lines 101 to 110) creates a socket, binds it, listens,
  prints a line and loops: accept, print, \<open>handle_client\<close>.
  The server's state: the address given to \<open>bind\<close>, the backlog given to \<open>listen\<close>,
  the lines it printed, the time it slept, and for every accepted connection the thread
  that ran \<open>handle_client\<close> on it and the client socket afterwards.

  \<open>while True\<close> has no \<open>break\<close> and the function no \<open>return\<close>: the loop ends only
  when an exception escapes (nothing in the server catches one). Over the connections
  that arrive, a run therefore ends in one of two ways: blocked in \<open>accept\<close> once
  every connection was handled, or terminated by an exception.
\<close>

type_synonym address = "str \<times> nat"

datatype thread = MainThread | Thread nat

record server =
  bound_to :: "address option"
  backlog :: "nat option"
  stdout :: "str list"
  slept :: nat
  handled :: "(thread \<times> sock) list"

datatype status = Blocked_in_accept | Raised error

text \<open>
  The text of \<open>{addr}\<close> in an f-string, for a host name of printable characters
  without quotes or backslashes (an IP address as \<open>accept\<close> returns it).
\<close>

definition repr_address :: "address \<Rightarrow> str" where
  "repr_address a = lit ''('' @ [39] @ fst a @ [39] @ lit '', '' @ int_repr (int (snd a)) @ lit '')''"

definition server_socket :: server where
  "server_socket =
     \<lparr>bound_to = Some (lit ''localhost'', 8000),
      backlog = Some 5,
      stdout = [lit ''Weather server started on port 8000''],
      slept = 0,
      handled = []\<rparr>"

fun accept_loop :: "thread \<Rightarrow> (sock \<times> address) list \<Rightarrow> server \<Rightarrow> status \<times> server" where
  "accept_loop me [] srv = (Blocked_in_accept, srv)"
| "accept_loop me ((client, addr) # pending) srv =
     (case handle_client client of
        (Inl e, client') \<Rightarrow>
          (Raised e,
           srv\<lparr>stdout := stdout srv @ [lit ''Accepted connection from '' @ repr_address addr],
               handled := handled srv @ [(me, client')]\<rparr>)
      | (Inr ms, client') \<Rightarrow>
          accept_loop me pending
            (srv\<lparr>stdout := stdout srv @ [lit ''Accepted connection from '' @ repr_address addr],
                 slept := slept srv + ms,
                 handled := handled srv @ [(me, client')]\<rparr>))"

text \<open>
  \<open>run_weather_server()\<close> on the thread \<open>me\<close>, with the connections that arrive, in
  order, each with the request its client has sent.
\<close>

definition run_weather_server :: "thread \<Rightarrow> (sock \<times> address) list \<Rightarrow> status \<times> server" where
  "run_weather_server me incoming = accept_loop me incoming server_socket"

subsection \<open>\<open>test_client\<close> and the main program\<close>

text \<open>
  \<open>test_client(city)\<close> (lines 113 to 119) connects, sends the JSON object with the
  city, receives at most 1024 octets, prints them and closes. The main program (lines 153
  to 171) starts one thread with \<open>run_weather_server\<close> as its target and then calls
  \<open>test_client\<close> for each of five cities on the main thread. A client blocks in \<open>recv\<close>
  until the server has answered, and the server blocks in \<open>accept\<close> until a client
  connects, so the two threads take turns: within \<open>test_client\<close>, between its \<open>send\<close>
  and its \<open>recv\<close>, the server thread accepts the connection and handles it. The
  server is taken to be listening before the first client connects.

  The world of the program: the threads it has started, the server thread and its run so
  far, every address passed to \<open>connect\<close>, the lines the clients printed, and the
  address the operating system gives the n-th client socket. When the server thread has
  died, what a client observes next is not followed (\<open>PeerFailed\<close>). The last line of
  the main program prints a wall-clock duration and is left out.
\<close>

record world =
  threads :: "thread list"
  srv_thread :: thread
  srv_run :: "status \<times> server"
  connects :: "address list"
  console :: "str list"
  local_addr :: "nat \<Rightarrow> address"

definition test_client :: "str \<Rightarrow> world \<Rightarrow> (error + unit) \<times> world" where
  "test_client city w =
     (let w1 = w\<lparr>connects := connects w @ [(lit ''localhost'', 8000)]\<rparr>
      in case srv_run w of
           (Raised e, s) \<Rightarrow> (Inl (PeerFailed e), w1)
         | (Blocked_in_accept, s) \<Rightarrow>
             if bound_to s \<noteq> Some (lit ''localhost'', 8000) \<or> backlog s = None
             then (Inl ConnectionRefusedError, w1)
             else
               (case encode (json_dumps (PyDict [(lit ''city'', PyStr city)])) of
                  Inl e \<Rightarrow> (Inl e, w1)
                | Inr request \<Rightarrow>
                    (case accept_loop (srv_thread w)
                            [(\<lparr>rx = request, tx = [], closed = False\<rparr>,
                              local_addr w (length (connects w)))] s of
                       (Raised e, s') \<Rightarrow> (Inl (PeerFailed e), w1\<lparr>srv_run := (Raised e, s')\<rparr>)
                     | (Blocked_in_accept, s') \<Rightarrow>
                         (case decode (take 1024 (concat (tx (snd (last (handled s')))))) of
                            Inl e \<Rightarrow> (Inl e, w1\<lparr>srv_run := (Blocked_in_accept, s')\<rparr>)
                          | Inr response \<Rightarrow>
                              (Inr (),
                               w1\<lparr>srv_run := (Blocked_in_accept, s'),
                                   console := console w
                                     @ [lit ''Received weather for '' @ city @ lit '': ''
                                        @ response]\<rparr>)))))"

fun for_each_city :: "str list \<Rightarrow> world \<Rightarrow> (error + unit) \<times> world" where
  "for_each_city [] w = (Inr (), w)"
| "for_each_city (city # rest) w =
     (case test_client city w of
        (Inl e, w') \<Rightarrow> (Inl e, w')
      | (Inr u, w') \<Rightarrow> for_each_city rest w')"

definition cities :: "str list" where
  "cities = [lit ''London'', lit ''Paris'', lit ''New York'', lit ''Tokyo'', lit ''Berlin'']"

definition start_server_thread :: "(nat \<Rightarrow> address) \<Rightarrow> world" where
  "start_server_thread addr =
     \<lparr>threads = [Thread 1],
      srv_thread = Thread 1,
      srv_run = run_weather_server (Thread 1) [],
      connects = [],
      console = [],
      local_addr = addr\<rparr>"

definition main :: "(nat \<Rightarrow> address) \<Rightarrow> (error + unit) \<times> world" where
  "main addr = for_each_city cities (start_server_thread addr)"

subsection \<open>City names that need no escape\<close>

text \<open>
  A name of printable ASCII characters other than the double quote and the backslash:
  \<open>json.dumps\<close> writes such a name between quotes as it is.
\<close>

definition plain_name :: "str \<Rightarrow> bool" where
  "plain_name c = list_all (\<lambda>x. 32 \<le> x \<and> x \<le> 126 \<and> x \<noteq> 34 \<and> x \<noteq> 92) c"

section \<open>The notebook\<close>

subsection \<open>\<open>might_fail\<close>\<close>

text \<open>
  A coroutine's result is paired with the time it spent in \<open>asyncio.sleep\<close>, in
  milliseconds. \<open>might_fail(succeed)\<close> sleeps one second, then raises
  \<open>ValueError\<close> with the message \<open>Operation failed!\<close> when \<open>not succeed\<close>, and
  returns the string \<open>Success!\<close> otherwise. The argument is a Boolean, as in every call of the notebook.
\<close>

definition might_fail :: "bool \<Rightarrow> nat \<times> (error + str)" where
  "might_fail succeed =
     (1000,
      if \<not> succeed then Inl (ValueError (lit ''Operation failed!''))
      else Inr (lit ''Success!''))"

subsection \<open>\<open>AsyncDataStream\<close> and \<open>async_range\<close>\<close>

text \<open>
  The iterator object has the three attributes its constructor sets. \<open>__anext__\<close>
  returns the current number after half a second and advances, or raises
  \<open>StopAsyncIteration\<close>; it returns the object as the call left it.
\<close>

record AsyncDataStream =
  start :: int
  end' :: int
  current :: int

definition AsyncDataStream_init :: "int \<Rightarrow> int \<Rightarrow> AsyncDataStream" where
  "AsyncDataStream_init a b = \<lparr>start = a, end' = b, current = a\<rparr>"

definition aiter :: "AsyncDataStream \<Rightarrow> AsyncDataStream" where
  "aiter self = self"

definition anext :: "AsyncDataStream \<Rightarrow> (nat \<times> (error + int)) \<times> AsyncDataStream" where
  "anext self =
     (if current self < end' self
      then ((500, Inr (current self)), self\<lparr>current := current self + 1\<rparr>)
      else ((0, Inl StopAsyncIteration), self))"

text \<open>
  \<open>async for num in it\<close>: call \<open>__anext__\<close> until it raises. \<open>StopAsyncIteration\<close>
  ends the loop; any other exception leaves it. The result lists every number the loop
  body received with the delay before it, and the exception that escaped, if any.
\<close>

function async_for :: "AsyncDataStream \<Rightarrow> (nat \<times> int) list \<times> error option" where
  "async_for it =
     (case anext it of
        ((d, Inr num), it') \<Rightarrow>
          (case async_for it' of (items, exc) \<Rightarrow> ((d, num) # items, exc))
      | ((d, Inl e), it') \<Rightarrow>
          (if e = StopAsyncIteration then ([], None) else ([], Some e)))"
  by pat_completeness auto
termination
  by (relation "measure (\<lambda>it. nat (end' it - current it))")
     (auto simp: anext_def split: if_splits)

declare async_for.simps [simp del]

text \<open>
  \<open>range(start, end)\<close> over integers, and the asynchronous generator that sleeps
  half a second before each number it yields.
\<close>

function py_range :: "int \<Rightarrow> int \<Rightarrow> int list" where
  "py_range i j = (if i < j then i # py_range (i + 1) j else [])"
  by pat_completeness auto
termination
  by (relation "measure (\<lambda>(i, j). nat (j - i))") auto

declare py_range.simps [simp del]

definition async_range :: "int \<Rightarrow> int \<Rightarrow> (nat \<times> int) list" where
  "async_range a b = map (\<lambda>i. (500, i)) (py_range a b)"

subsection \<open>The code cells\<close>

text \<open>
  Every code cell of the notebook, in order, by the names it binds at its top level
  (imports, functions, classes) and the names it refers to that no enclosing function
  of the cell binds as a parameter or local variable. \<open>builtins\<close> are the names of
  Python's built-in namespace that the cells use.
\<close>

record cell =
  binds :: "string list"
  refers :: "string list"

definition builtins :: "string list" where
  "builtins = [''print'', ''range'', ''len'', ''list'', ''enumerate'', ''isinstance'', ''zip'',
               ''Exception'', ''ValueError'', ''StopAsyncIteration'']"

definition notebook :: "cell list" where
  "notebook =
     [\<lparr>binds = [''asyncio'', ''simple_coroutine''],
       refers = [''print'', ''asyncio'', ''simple_coroutine'']\<rparr>,
      \<lparr>binds = [''fetch_data'', ''process_data''],
       refers = [''print'', ''asyncio'', ''fetch_data'', ''process_data'']\<rparr>,
      \<lparr>binds = [''main''],
       refers = [''asyncio'', ''fetch_data'', ''main'']\<rparr>,
      \<lparr>binds = [''long_operation'', ''task_demo''],
       refers = [''print'', ''asyncio'', ''long_operation'', ''task_demo'']\<rparr>,
      \<lparr>binds = [''task_operations_demo''],
       refers = [''asyncio'', ''long_operation'', ''print'', ''task_operations_demo'']\<rparr>,
      \<lparr>binds = [''might_fail'', ''error_handling_demo''],
       refers = [''asyncio'', ''ValueError'', ''might_fail'', ''print'', ''enumerate'',
                 ''isinstance'', ''Exception'', ''error_handling_demo'']\<rparr>,
      \<lparr>binds = [''AsyncResource'', ''context_manager_demo''],
       refers = [''print'', ''asyncio'', ''AsyncResource'', ''context_manager_demo'']\<rparr>,
      \<lparr>binds = [''AsyncDatabase'', ''database_demo''],
       refers = [''asyncio'', ''AsyncDatabase'', ''print'', ''database_demo'']\<rparr>,
      \<lparr>binds = [''AsyncDataStream'', ''iterator_demo''],
       refers = [''asyncio'', ''StopAsyncIteration'', ''AsyncDataStream'', ''print'',
                 ''iterator_demo'']\<rparr>,
      \<lparr>binds = [''async_range'', ''generator_demo''],
       refers = [''range'', ''asyncio'', ''async_range'', ''print'', ''generator_demo'']\<rparr>,
      \<lparr>binds = [''aiohttp'', ''fetch_url'', ''fetch_multiple_urls''],
       refers = [''aiohttp'', ''asyncio'', ''fetch_url'', ''zip'', ''print'', ''len'']\<rparr>,
      \<lparr>binds = [''web'', ''handle_get'', ''init_app''],
       refers = [''asyncio'', ''web'', ''handle_get'']\<rparr>,
      \<lparr>binds = [''demo_performance_patterns''],
       refers = [''asyncio'', ''list'', ''range'', ''len'', ''print'',
                 ''demo_performance_patterns'']\<rparr>,
      \<lparr>binds = [''time'', ''functools'', ''async_timer'', ''monitored_operation''],
       refers = [''functools'', ''time'', ''print'', ''async_timer'', ''asyncio'',
                 ''monitored_operation'']\<rparr>]"

definition self_contained :: "cell \<Rightarrow> bool" where
  "self_contained c = list_all (\<lambda>n. n \<in> set (binds c @ builtins)) (refers c)"

text \<open>
  The names bound once the first \<open>k\<close> cells have run, and whether every cell finds
  each name it refers to among the built-in names and those bound by the cells up to
  and including itself.
\<close>

definition bound_after :: "nat \<Rightarrow> string list" where
  "bound_after k = concat (map binds (take k notebook))"

definition resolves :: "nat \<Rightarrow> bool" where
  "resolves i = list_all (\<lambda>n. n \<in> set (bound_after (Suc i) @ builtins)) (refers (notebook ! i))"

section \<open>The notebook's coroutines\<close>

text \<open>
  C8. \<open>might_fail\<close> raises \<open>ValueError\<close> exactly when \<open>succeed\<close> is false and
  returns the string \<open>Success!\<close> exactly when it is true; it has no third outcome.
\<close>

theorem might_fail_outcomes:
  "(snd (might_fail succeed) = Inl (ValueError (lit ''Operation failed!'')) \<longleftrightarrow> succeed = False)
   \<and> (snd (might_fail succeed) = Inr (lit ''Success!'') \<longleftrightarrow> succeed = True)
   \<and> (snd (might_fail succeed) = Inl (ValueError (lit ''Operation failed!''))
        \<or> snd (might_fail succeed) = Inr (lit ''Success!''))"
  by (cases succeed) (simp_all add: might_fail_def)

lemma py_range_upto: "py_range a b = [a..b - 1]"
proof (induction a b rule: py_range.induct)
  case (1 i j)
  show ?case
  proof (cases "i < j")
    case True
    then have "py_range i j = i # py_range (i + 1) j"
      by (subst py_range.simps) simp
    also have "\<dots> = i # [i + 1..j - 1]"
      using "1" True by simp
    also have "\<dots> = [i..j - 1]"
      using True by (simp add: upto_rec1)
    finally show ?thesis .
  next
    case False
    then show ?thesis
      by (subst py_range.simps) simp
  qed
qed

lemma async_for_py_range:
  "async_for it = (map (\<lambda>i. (500, i)) (py_range (current it) (end' it)), None)"
proof (induction it rule: async_for.induct)
  case (1 it)
  show ?case
  proof (cases "current it < end' it")
    case True
    let ?it' = "it\<lparr>current := current it + 1\<rparr>"
    have step: "anext it = ((500, Inr (current it)), ?it')"
      using True by (simp add: anext_def)
    have ih: "async_for ?it' = (map (\<lambda>i. (500, i)) (py_range (current it + 1) (end' it)), None)"
      using "1" [OF step [symmetric] refl refl] by simp
    have "py_range (current it) (end' it) = current it # py_range (current it + 1) (end' it)"
      using True by (subst py_range.simps) simp
    then show ?thesis
      by (subst async_for.simps) (simp add: step ih)
  next
    case False
    then have "anext it = ((0, Inl StopAsyncIteration), it)"
      by (simp add: anext_def)
    moreover have "py_range (current it) (end' it) = []"
      using False by (subst py_range.simps) simp
    ultimately show ?thesis
      by (subst async_for.simps) simp
  qed
qed

text \<open>
  C9. For all integers \<open>a\<close> and \<open>b\<close>, \<open>async for\<close> over \<open>AsyncDataStream(a, b)\<close> receives
  exactly what the generator \<open>async_range(a, b)\<close> yields and ends without an exception:
  the integers from \<open>a\<close> to \<open>b - 1\<close> in increasing order, each after half a second,
  and nothing when \<open>a \<ge> b\<close>.
\<close>

theorem async_data_stream_is_async_range:
  "async_for (aiter (AsyncDataStream_init a b)) = (async_range a b, None)
   \<and> map snd (async_range a b) = [a..b - 1]
   \<and> (b \<le> a \<longrightarrow> async_range a b = [])"
proof -
  have "async_for (aiter (AsyncDataStream_init a b)) = (async_range a b, None)"
    by (simp add: async_for_py_range aiter_def AsyncDataStream_init_def async_range_def)
  moreover have "map snd (async_range a b) = [a..b - 1]"
    by (simp add: async_range_def py_range_upto comp_def)
  moreover have "b \<le> a \<longrightarrow> async_range a b = []"
    by (simp add: async_range_def py_range_upto)
  ultimately show ?thesis by blast
qed

theorem async_data_stream_is_async_range_witness:
  "async_for (aiter (AsyncDataStream_init 1 4)) = (async_range 1 4, None)
   \<and> map snd (async_range 1 4) = [1, 2, 3]
   \<and> (4::int) \<le> 4 \<and> async_range 4 4 = []"
proof -
  have "[1..(4::int) - 1] = [1, 2, 3]"
    by (simp add: upto_rec1)
  then show ?thesis
    using async_data_stream_is_async_range [of 1 4] async_data_stream_is_async_range [of 4 4]
    by simp
qed

section \<open>The weather service\<close>

lemma lit_neq [simp]:
  "lit ''temperature'' \<noteq> lit ''city''"
  "lit ''conditions'' \<noteq> lit ''city''"
  "lit ''conditions'' \<noteq> lit ''temperature''"
  by (simp_all add: lit_def)

text \<open>
  C10. \<open>get_weather_data\<close> is a function of its argument alone: for any two cities the
  results carry temperature 20 and conditions \<open>sunny\<close> (so these two fields are the same
  whatever the city), and equal cities give equal results.
\<close>

theorem get_weather_data_deterministic:
  "map_of (snd (get_weather_data c1)) (lit ''temperature'') = Some (PyInt 20)
   \<and> map_of (snd (get_weather_data c1)) (lit ''conditions'') = Some (PyStr (lit ''sunny''))
   \<and> map_of (snd (get_weather_data c2)) (lit ''temperature'') = Some (PyInt 20)
   \<and> map_of (snd (get_weather_data c2)) (lit ''conditions'') = Some (PyStr (lit ''sunny''))
   \<and> (c1 = c2 \<longrightarrow> get_weather_data c1 = get_weather_data c2)"
  by (simp add: get_weather_data_def)

theorem get_weather_data_deterministic_witness:
  "map_of (snd (get_weather_data (PyStr (lit ''London'')))) (lit ''temperature'') = Some (PyInt 20)
   \<and> map_of (snd (get_weather_data (PyStr (lit ''Paris'')))) (lit ''conditions'')
       = Some (PyStr (lit ''sunny''))
   \<and> get_weather_data (PyStr (lit ''London'')) = get_weather_data (PyStr (lit ''London''))"
  using get_weather_data_deterministic [of "PyStr (lit ''London'')" "PyStr (lit ''Paris'')"]
    get_weather_data_deterministic [of "PyStr (lit ''London'')" "PyStr (lit ''London'')"]
  by simp

subsection \<open>Evaluating the decoder\<close>

text \<open>
  The decoder's equations for a bound that is not zero, in the two shapes in which
  bounds occur: a numeral, and a number known to be positive.
\<close>

lemma scan_once_pos:
  "0 < n \<Longrightarrow> scan_once n s =
     (case s of
        [] \<Rightarrow> Inl JSONDecodeError
      | c # cs \<Rightarrow>
          if c = 34 then
            (case scanstring cs of
               Inl e \<Rightarrow> Inl e
             | Inr (x, rest) \<Rightarrow> Inr (PyStr x, rest))
          else if c = 123 then
            (if starts_with [125] (skip_ws cs) then Inr (PyDict [], tl (skip_ws cs))
             else parse_object (n - 1) (skip_ws cs) [])
          else if c = 91 then
            (if starts_with [93] (skip_ws cs) then Inr (PyList [], tl (skip_ws cs))
             else parse_array (n - 1) (skip_ws cs) [])
          else if starts_with (lit ''null'') s then Inr (PyNone, drop 4 s)
          else if starts_with (lit ''true'') s then Inr (PyBool True, drop 4 s)
          else if starts_with (lit ''false'') s then Inr (PyBool False, drop 5 s)
          else if starts_with (lit ''NaN'') s then Inr (PyFloat NotANumber, drop 3 s)
          else if starts_with (lit ''Infinity'') s then Inr (PyFloat (Infinite False), drop 8 s)
          else if starts_with (lit ''-Infinity'') s then Inr (PyFloat (Infinite True), drop 9 s)
          else match_number s)"
proof -
  assume "0 < n"
  then have n: "n = Suc (n - 1)" by simp
  show ?thesis
    by (subst n) (simp only: scan_once.simps)
qed

lemma parse_array_pos:
  "0 < n \<Longrightarrow> parse_array n s acc =
     (case scan_once (n - 1) s of
        Inl e \<Rightarrow> Inl e
      | Inr (v, rest) \<Rightarrow>
          if starts_with [93] (skip_ws rest) then Inr (PyList (acc @ [v]), tl (skip_ws rest))
          else if starts_with [44] (skip_ws rest)
          then parse_array (n - 1) (skip_ws (tl (skip_ws rest))) (acc @ [v])
          else Inl JSONDecodeError)"
proof -
  assume "0 < n"
  then have n: "n = Suc (n - 1)" by simp
  show ?thesis
    by (subst n) (simp only: parse_array.simps)
qed

lemma parse_object_pos:
  "0 < n \<Longrightarrow> parse_object n s acc =
     (if \<not> starts_with [34] s then Inl JSONDecodeError
      else
        (case scanstring (tl s) of
           Inl e \<Rightarrow> Inl e
         | Inr (key, rest) \<Rightarrow>
             if \<not> starts_with [58] (skip_ws rest) then Inl JSONDecodeError
             else
               (case scan_once (n - 1) (skip_ws (tl (skip_ws rest))) of
                  Inl e \<Rightarrow> Inl e
                | Inr (v, rest2) \<Rightarrow>
                    if starts_with [125] (skip_ws rest2)
                    then Inr (PyDict (dict_set key v acc), tl (skip_ws rest2))
                    else if starts_with [44] (skip_ws rest2)
                    then parse_object (n - 1) (skip_ws (tl (skip_ws rest2))) (dict_set key v acc)
                    else Inl JSONDecodeError)))"
proof -
  assume "0 < n"
  then have n: "n = Suc (n - 1)" by simp
  show ?thesis
    by (subst n) (simp only: parse_object.simps)
qed

lemmas json_eval = lit_def json_loads_def starts_with_def prepend_def scan_once_pos
  parse_array_pos parse_object_pos match_number_def scan_fraction_def scan_exponent_def
  is_digit_def int_of_digits_def
  decode_uXXXX_def hexval_def backslash_def Let_def
  encode_basestring_ascii_def escape_ascii_def hex4_def hex_digit_def int_repr_def digits.simps

lemmas float_eval = float_of_decimal_def scale_def nearest_double_def round_half_even_def
  bit_length.simps decimal_point_def decimal_at_def shortest.simps strip_zeros_def
  two_digits_def format_short_def float_repr_def floatstr_def

lemmas io_eval = handle_client_def recv_def send_def close_def decode_def cons_ok_def
  getitem_def get_weather_data_def utf8_octets_def char_of_eq_iff

subsection \<open>ASCII text\<close>

lemma utf8_points_ascii: "\<forall>c\<in>set xs. c < 128 \<Longrightarrow> utf8_points xs = Inr xs"
  by (induction xs) (simp_all add: cons_ok_def)

lemma encode_ascii: "\<forall>c\<in>set s. c < 128 \<Longrightarrow> encode s = Inr (map char_of s)"
  by (induction s) (simp_all add: utf8_octets_def)

lemma digits_ascii: "\<forall>c\<in>set (digits n). c < 128"
proof (induction n rule: digits.induct)
  case (1 n)
  show ?case
  proof (cases "n < 10")
    case True
    then show ?thesis by (subst digits.simps) simp
  next
    case False
    have "n mod 10 < 10" by simp
    then have "48 + n mod 10 < 128" by linarith
    with False "1" show ?thesis by (subst digits.simps) simp
  qed
qed

lemma int_repr_ascii: "\<forall>c\<in>set (int_repr i). c < 128"
  using digits_ascii by (simp add: int_repr_def)

lemma hex_digit_ascii: "d < 16 \<Longrightarrow> hex_digit d < 128"
  by (simp add: hex_digit_def)

lemma hex4_ascii: "\<forall>c\<in>set (hex4 n). c < 128"
  by (simp add: hex4_def hex_digit_ascii)

lemma escape_ascii_ascii: "\<forall>c\<in>set (escape_ascii x). c < 128"
  using hex4_ascii by (auto simp: escape_ascii_def)

lemma encode_basestring_ascii_ascii: "\<forall>c\<in>set (encode_basestring_ascii s). c < 128"
  using escape_ascii_ascii by (auto simp: encode_basestring_ascii_def)

lemma join_ascii:
  "\<forall>c\<in>set sep. c < (128::nat) \<Longrightarrow> \<forall>x\<in>set xs. \<forall>c\<in>set x. c < 128
   \<Longrightarrow> \<forall>c\<in>set (join sep xs). c < 128"
  by (induction sep xs rule: join.induct) auto

lemma lit_ascii_sep [simp]: "\<forall>c\<in>set (lit '', ''). c < 128" "\<forall>c\<in>set (lit '': ''). c < 128"
  by (simp_all add: lit_def)

lemma strip_zeros_ascii: "\<forall>c\<in>set ds. c < 128 \<Longrightarrow> \<forall>c\<in>set (strip_zeros ds). c < 128"
  by (auto simp: strip_zeros_def dest: set_dropWhileD)

lemma two_digits_ascii: "\<forall>c\<in>set (two_digits n). c < 128"
  using digits_ascii by (simp add: two_digits_def)

lemma format_short_ascii:
  assumes "\<forall>c\<in>set ds. c < 128"
  shows "\<forall>c\<in>set (format_short ds decpt). c < 128"
proof -
  have "\<forall>c\<in>set (take k ds). c < 128" "\<forall>c\<in>set (drop k ds). c < 128" for k
    using assms by (auto dest: in_set_takeD in_set_dropD)
  with assms two_digits_ascii show ?thesis
    by (auto simp: format_short_def)
qed

lemma float_repr_ascii: "\<forall>c\<in>set (float_repr neg m e). c < 128"
proof -
  have "\<forall>c\<in>set (format_short (strip_zeros (digits k)) p). c < 128" for k p
    by (rule format_short_ascii) (rule strip_zeros_ascii, rule digits_ascii)
  then show ?thesis
    by (auto simp: float_repr_def split: prod.splits)
qed

lemma floatstr_ascii: "\<forall>c\<in>set (floatstr f). c < 128"
  using float_repr_ascii by (cases f) (simp_all add: floatstr_def lit_def)

lemma json_dumps_ascii: "\<forall>c\<in>set (json_dumps v). c < 128"
proof (induction v rule: json_dumps.induct)
  case 1
  show ?case by (simp add: lit_def)
next
  case (2 b)
  show ?case by (simp add: lit_def)
next
  case (3 i)
  show ?case using int_repr_ascii by simp
next
  case (4 f)
  show ?case using floatstr_ascii by simp
next
  case (5 s)
  show ?case using encode_basestring_ascii_ascii by simp
next
  case (6 xs)
  have "\<forall>c\<in>set (join (lit '', '') (map json_dumps xs)). c < 128"
    by (rule join_ascii) (use "6" in auto)
  then show ?case by (auto simp: lit_def)
next
  case (7 kvs)
  have "\<forall>c\<in>set (join (lit '', '')
       (map (\<lambda>kv. encode_basestring_ascii (fst kv) @ lit '': '' @ json_dumps (snd kv)) kvs)).
     c < 128"
  proof (rule join_ascii)
    show "\<forall>c\<in>set (lit '', ''). c < 128" by simp
    show "\<forall>x\<in>set (map (\<lambda>kv. encode_basestring_ascii (fst kv) @ lit '': ''
              @ json_dumps (snd kv)) kvs). \<forall>c\<in>set x. c < 128"
      using "7" encode_basestring_ascii_ascii by (auto simp: lit_def)
  qed
  then show ?case by (auto simp: lit_def)
qed

lemma encode_json_dumps: "encode (json_dumps v) = Inr (map char_of (json_dumps v))"
  by (rule encode_ascii) (rule json_dumps_ascii)

subsection \<open>The decoder's bound is never used up\<close>

text \<open>
  Every call of the decoder that returns a value has consumed at least one character, so
  the bound \<open>2 * length s + 1\<close> that \<open>json_loads\<close> passes is enough for every text:
  \<open>json_loads\<close> never answers \<open>OutOfFuel\<close>, and the one error it gives is
  \<open>JSONDecodeError\<close>.
\<close>

lemma skip_ws_length: "length (skip_ws s) \<le> length s"
  by (induction s) auto

lemma prepend_rest: "prepend c r = Inr (x, rest) \<Longrightarrow> \<exists>y. r = Inr (y, rest)"
  by (auto simp: prepend_def split: sum.splits)

lemma scanstring_step:
  "scanstring (c # cs) = Inr (x, r) \<Longrightarrow>
   r = cs \<or> (\<exists>s' y. scanstring s' = Inr (y, r) \<and> length s' \<le> length cs)"
  by (fastforce split: if_splits list.splits option.splits dest!: prepend_rest)

lemma scanstring_rest: "scanstring s = Inr (x, r) \<Longrightarrow> length r < length s"
proof (induction "length s" arbitrary: s x r rule: less_induct)
  case less
  show ?case
  proof (cases s)
    case Nil
    with less.prems show ?thesis by simp
  next
    case (Cons c cs)
    from scanstring_step [OF less.prems [unfolded Cons]]
    show ?thesis
    proof
      assume "r = cs"
      then show ?thesis by (simp add: Cons)
    next
      assume "\<exists>s' y. scanstring s' = Inr (y, r) \<and> length s' \<le> length cs"
      then obtain s' y where s': "scanstring s' = Inr (y, r)" "length s' \<le> length cs"
        by blast
      then have "length s' < length s" by (simp add: Cons)
      from less.hyps [OF this s'(1)] s'(2) show ?thesis by (simp add: Cons)
    qed
  qed
qed

lemma scan_fraction_rest: "scan_fraction s = (frac, r) \<Longrightarrow> length r \<le> length s"
proof -
  assume a: "scan_fraction s = (frac, r)"
  have "length (dropWhile is_digit (tl s)) \<le> length s"
    using length_dropWhile_le [of is_digit "tl s"] by simp
  with a show ?thesis
    by (auto simp: scan_fraction_def split: list.splits if_splits)
qed

lemma scan_exponent_rest: "scan_exponent s = Some (ex, r) \<Longrightarrow> length r \<le> length s"
proof -
  assume a: "scan_exponent s = Some (ex, r)"
  have 1: "length (dropWhile is_digit (tl s)) \<le> length s"
    using length_dropWhile_le [of is_digit "tl s"] by simp
  have 2: "length (dropWhile is_digit (tl (tl s))) \<le> length s"
    using length_dropWhile_le [of is_digit "tl (tl s)"] by simp
  from a have "r = dropWhile is_digit (tl s) \<or> r = dropWhile is_digit (tl (tl s))"
    by (auto simp: scan_exponent_def Let_def split: list.splits if_splits)
  with 1 2 show ?thesis by auto
qed

lemma match_number_rest: "match_number s = Inr (v, r) \<Longrightarrow> length r < length s"
proof -
  assume a: "match_number s = Inr (v, r)"
  from a obtain c t where s1: "(if starts_with [45] s then tl s else s) = c # t"
    by (auto simp: match_number_def Let_def split: list.splits if_splits)
  define rest where "rest = (if c = 48 then t else dropWhile is_digit t)"
  obtain frac rest_f where f: "scan_fraction rest = (frac, rest_f)"
    by (cases "scan_fraction rest")
  have 1: "length rest \<le> length t"
    using length_dropWhile_le [of is_digit t] by (simp add: rest_def)
  have 2: "length rest_f \<le> length rest"
    by (rule scan_fraction_rest [OF f])
  have "r = rest \<or> r = rest_f \<or> (\<exists>ex. scan_exponent rest_f = Some (ex, r))"
    using a s1 f unfolding match_number_def Let_def rest_def
    by (auto split: list.splits if_splits option.splits)
  then have "length r \<le> length t"
    using 1 2 scan_exponent_rest [of rest_f _ r] by auto
  moreover have "length (c # t) \<le> length s"
    using s1 [symmetric] by (simp split: if_splits)
  ultimately show ?thesis by simp
qed

lemma match_number_error: "match_number s = Inl e \<Longrightarrow> e = JSONDecodeError"
  by (auto simp: match_number_def Let_def split: list.splits if_splits option.splits prod.splits)

lemma prepend_error: "prepend c r = Inl e \<Longrightarrow> r = Inl e"
  by (auto simp: prepend_def split: sum.splits)

lemma scanstring_error_step:
  "scanstring (c # cs) = Inl e \<Longrightarrow>
   e = JSONDecodeError \<or> (\<exists>s'. scanstring s' = Inl e \<and> length s' \<le> length cs)"
  by (fastforce split: if_splits list.splits option.splits dest!: prepend_error)

lemma scanstring_error: "scanstring s = Inl e \<Longrightarrow> e = JSONDecodeError"
proof (induction "length s" arbitrary: s rule: less_induct)
  case less
  show ?case
  proof (cases s)
    case Nil
    with less.prems show ?thesis by simp
  next
    case (Cons c cs)
    from scanstring_error_step [OF less.prems [unfolded Cons]]
    show ?thesis
    proof
      assume "\<exists>s'. scanstring s' = Inl e \<and> length s' \<le> length cs"
      then obtain s' where s': "scanstring s' = Inl e" "length s' \<le> length cs"
        by blast
      then have "length s' < length s" by (simp add: Cons)
      from less.hyps [OF this s'(1)] show ?thesis .
    qed
  qed
qed

lemma starts_with_Cons: "starts_with [c] s \<Longrightarrow> s \<noteq> [] \<and> length (tl s) < length s"
  by (cases s) (simp_all add: starts_with_def)

lemma starts_with_length: "starts_with p s \<Longrightarrow> length p \<le> length s"
  by (metis starts_with_def length_take min.cobounded1)

lemma scan_once_Suc_rest:
  assumes po: "\<And>s kvs v r. parse_object n s kvs = Inr (v, r) \<Longrightarrow> length r < length s"
    and pa: "\<And>s acc v r. parse_array n s acc = Inr (v, r) \<Longrightarrow> length r < length s"
    and a: "scan_once (Suc n) s = Inr (v, r)"
  shows "length r < length s"
proof (cases s)
  case Nil
  with a show ?thesis by simp
next
  case (Cons c cs)
  have ws: "length (skip_ws cs) \<le> length cs" by (rule skip_ws_length)
  consider (str) "c = 34" | (obj) "c \<noteq> 34" "c = 123" | (arr) "c \<noteq> 34" "c \<noteq> 123" "c = 91"
    | (other) "c \<noteq> 34" "c \<noteq> 123" "c \<noteq> 91"
    by blast
  then show ?thesis
  proof cases
    case str
    with a Cons obtain x where "scanstring cs = Inr (x, r)"
      by (auto split: sum.splits)
    from scanstring_rest [OF this] show ?thesis by (simp add: Cons)
  next
    case obj
    show ?thesis
    proof (cases "starts_with [125] (skip_ws cs)")
      case True
      with a Cons obj have "r = tl (skip_ws cs)" by simp
      with starts_with_Cons [OF True] ws show ?thesis by (simp add: Cons)
    next
      case False
      with a Cons obj have "parse_object n (skip_ws cs) [] = Inr (v, r)" by simp
      from po [OF this] ws show ?thesis by (simp add: Cons)
    qed
  next
    case arr
    show ?thesis
    proof (cases "starts_with [93] (skip_ws cs)")
      case True
      with a Cons arr have "r = tl (skip_ws cs)" by simp
      with starts_with_Cons [OF True] ws show ?thesis by (simp add: Cons)
    next
      case False
      with a Cons arr have "parse_array n (skip_ws cs) [] = Inr (v, r)" by simp
      from pa [OF this] ws show ?thesis by (simp add: Cons)
    qed
  next
    case other
    from a have b: "(if starts_with (lit ''null'') s then Inr (PyNone, drop 4 s)
          else if starts_with (lit ''true'') s then Inr (PyBool True, drop 4 s)
          else if starts_with (lit ''false'') s then Inr (PyBool False, drop 5 s)
          else if starts_with (lit ''NaN'') s then Inr (PyFloat NotANumber, drop 3 s)
          else if starts_with (lit ''Infinity'') s then Inr (PyFloat (Infinite False), drop 8 s)
          else if starts_with (lit ''-Infinity'') s then Inr (PyFloat (Infinite True), drop 9 s)
          else match_number s) = Inr (v, r)"
      unfolding Cons by (simp only: scan_once.simps list.case other if_False)
    have l3: "\<And>p. starts_with p s \<Longrightarrow> length p = 3 \<Longrightarrow> length (drop 3 s) < length s"
      using starts_with_length by fastforce
    have l4: "\<And>p. starts_with p s \<Longrightarrow> length p = 4 \<Longrightarrow> length (drop 4 s) < length s"
      using starts_with_length by fastforce
    have l5: "\<And>p. starts_with p s \<Longrightarrow> length p = 5 \<Longrightarrow> length (drop 5 s) < length s"
      using starts_with_length by fastforce
    have l8: "\<And>p. starts_with p s \<Longrightarrow> length p = 8 \<Longrightarrow> length (drop 8 s) < length s"
      using starts_with_length by fastforce
    have l9: "\<And>p. starts_with p s \<Longrightarrow> length p = 9 \<Longrightarrow> length (drop 9 s) < length s"
      using starts_with_length by fastforce
    from b show ?thesis
      by (auto split: if_splits dest: match_number_rest l3 l4 l5 l8 l9 simp: lit_def)
  qed
qed

lemma after_delimiter:
  "starts_with [c] (skip_ws rest) \<Longrightarrow> length (skip_ws (tl (skip_ws rest))) < length rest"
proof -
  assume a: "starts_with [c] (skip_ws rest)"
  have "length (skip_ws (tl (skip_ws rest))) \<le> length (tl (skip_ws rest))"
    by (rule skip_ws_length)
  also have "\<dots> < length (skip_ws rest)"
    using starts_with_Cons [OF a] by simp
  also have "\<dots> \<le> length rest"
    by (rule skip_ws_length)
  finally show ?thesis .
qed

lemma after_closing:
  "starts_with [c] (skip_ws rest) \<Longrightarrow> length (tl (skip_ws rest)) < length rest"
  using starts_with_Cons [of c "skip_ws rest"] skip_ws_length [of rest] by simp

lemma parse_array_Suc_rest:
  assumes so: "\<And>s v r. scan_once n s = Inr (v, r) \<Longrightarrow> length r < length s"
    and pa: "\<And>s acc v r. parse_array n s acc = Inr (v, r) \<Longrightarrow> length r < length s"
    and a: "parse_array (Suc n) s acc = Inr (v, r)"
  shows "length r < length s"
proof -
  from a obtain x rest where x: "scan_once n s = Inr (x, rest)"
    by (auto split: sum.splits)
  have rest: "length rest < length s" by (rule so [OF x])
  show ?thesis
  proof (cases "starts_with [93] (skip_ws rest)")
    case True
    with a x have "r = tl (skip_ws rest)" by simp
    with after_closing [OF True] rest show ?thesis by simp
  next
    case False
    show ?thesis
    proof (cases "starts_with [44] (skip_ws rest)")
      case True
      with a x False have "parse_array n (skip_ws (tl (skip_ws rest))) (acc @ [x]) = Inr (v, r)"
        by simp
      from pa [OF this] after_delimiter [OF True] rest show ?thesis by simp
    next
      case c: False
      with a x False show ?thesis by simp
    qed
  qed
qed

lemma parse_object_Suc_rest:
  assumes so: "\<And>s v r. scan_once n s = Inr (v, r) \<Longrightarrow> length r < length s"
    and po: "\<And>s kvs v r. parse_object n s kvs = Inr (v, r) \<Longrightarrow> length r < length s"
    and a: "parse_object (Suc n) s kvs = Inr (v, r)"
  shows "length r < length s"
proof -
  from a have q: "starts_with [34] s"
    by (simp split: if_splits)
  with a obtain key rest where k: "scanstring (tl s) = Inr (key, rest)"
    by (auto split: sum.splits)
  have rest: "length rest < length s"
    using scanstring_rest [OF k] starts_with_Cons [OF q] by simp
  from a q k have colon: "starts_with [58] (skip_ws rest)"
    by (simp split: if_splits)
  with a q k obtain x rest2 where x: "scan_once n (skip_ws (tl (skip_ws rest))) = Inr (x, rest2)"
    by (auto split: sum.splits)
  have rest2: "length rest2 < length s"
    using so [OF x] after_delimiter [OF colon] rest by simp
  show ?thesis
  proof (cases "starts_with [125] (skip_ws rest2)")
    case True
    with a q k colon x have "r = tl (skip_ws rest2)" by simp
    with after_closing [OF True] rest2 show ?thesis by simp
  next
    case False
    show ?thesis
    proof (cases "starts_with [44] (skip_ws rest2)")
      case True
      with a q k colon x False
      have "parse_object n (skip_ws (tl (skip_ws rest2))) (dict_set key x kvs) = Inr (v, r)"
        by simp
      from po [OF this] after_delimiter [OF True] rest2 show ?thesis by simp
    next
      case c: False
      with a q k colon x False show ?thesis by simp
    qed
  qed
qed

lemma parser_rest:
  "(\<forall>s v r. scan_once n s = Inr (v, r) \<longrightarrow> length r < length s)
   \<and> (\<forall>s acc v r. parse_array n s acc = Inr (v, r) \<longrightarrow> length r < length s)
   \<and> (\<forall>s kvs v r. parse_object n s kvs = Inr (v, r) \<longrightarrow> length r < length s)"
proof (induction n)
  case 0
  show ?case by simp
next
  case (Suc n)
  then have so: "\<And>s v r. scan_once n s = Inr (v, r) \<Longrightarrow> length r < length s"
    and pa: "\<And>s acc v r. parse_array n s acc = Inr (v, r) \<Longrightarrow> length r < length s"
    and po: "\<And>s kvs v r. parse_object n s kvs = Inr (v, r) \<Longrightarrow> length r < length s"
    by blast+
  have 1: "length r < length s" if "scan_once (Suc n) s = Inr (v, r)" for s v r
    using po pa that by (rule scan_once_Suc_rest [of n])
  have 2: "length r < length s" if "parse_array (Suc n) s acc = Inr (v, r)" for s acc v r
    using so pa that by (rule parse_array_Suc_rest [of n])
  have 3: "length r < length s" if "parse_object (Suc n) s kvs = Inr (v, r)" for s kvs v r
    using so po that by (rule parse_object_Suc_rest [of n])
  from 1 2 3 show ?case by blast
qed

lemma scan_once_rest: "scan_once n s = Inr (v, r) \<Longrightarrow> length r < length s"
  using parser_rest by blast

lemma scan_once_Suc_fuel:
  assumes po: "\<And>s kvs e. 2 * length s + 2 \<le> n \<Longrightarrow> parse_object n s kvs = Inl e
        \<Longrightarrow> e = JSONDecodeError"
    and pa: "\<And>s acc e. 2 * length s + 2 \<le> n \<Longrightarrow> parse_array n s acc = Inl e
        \<Longrightarrow> e = JSONDecodeError"
    and n: "2 * length s + 1 \<le> Suc n"
    and a: "scan_once (Suc n) s = Inl e"
  shows "e = JSONDecodeError"
proof (cases s)
  case Nil
  with a show ?thesis by simp
next
  case (Cons c cs)
  have ws: "2 * length (skip_ws cs) + 2 \<le> n"
    using skip_ws_length [of cs] n by (simp add: Cons)
  consider (str) "c = 34" | (obj) "c \<noteq> 34" "c = 123" | (arr) "c \<noteq> 34" "c \<noteq> 123" "c = 91"
    | (other) "c \<noteq> 34" "c \<noteq> 123" "c \<noteq> 91"
    by blast
  then show ?thesis
  proof cases
    case str
    with a show ?thesis
      by (auto simp: Cons split: sum.splits dest: scanstring_error)
  next
    case obj
    with a have "parse_object n (skip_ws cs) [] = Inl e"
      by (simp add: Cons split: if_splits)
    from po [OF ws this] show ?thesis .
  next
    case arr
    with a have "parse_array n (skip_ws cs) [] = Inl e"
      by (simp add: Cons split: if_splits)
    from pa [OF ws this] show ?thesis .
  next
    case other
    from a have "(if starts_with (lit ''null'') s then Inr (PyNone, drop 4 s)
          else if starts_with (lit ''true'') s then Inr (PyBool True, drop 4 s)
          else if starts_with (lit ''false'') s then Inr (PyBool False, drop 5 s)
          else if starts_with (lit ''NaN'') s then Inr (PyFloat NotANumber, drop 3 s)
          else if starts_with (lit ''Infinity'') s then Inr (PyFloat (Infinite False), drop 8 s)
          else if starts_with (lit ''-Infinity'') s then Inr (PyFloat (Infinite True), drop 9 s)
          else match_number s) = Inl e"
      unfolding Cons by (simp only: scan_once.simps list.case other if_False)
    then show ?thesis
      using match_number_error [of s e] by (auto split: if_splits)
  qed
qed

lemma parse_array_Suc_fuel:
  assumes so: "\<And>s e. 2 * length s + 1 \<le> n \<Longrightarrow> scan_once n s = Inl e \<Longrightarrow> e = JSONDecodeError"
    and pa: "\<And>s acc e. 2 * length s + 2 \<le> n \<Longrightarrow> parse_array n s acc = Inl e
        \<Longrightarrow> e = JSONDecodeError"
    and n: "2 * length s + 2 \<le> Suc n"
    and a: "parse_array (Suc n) s acc = Inl e"
  shows "e = JSONDecodeError"
proof (cases "scan_once n s")
  case (Inl e')
  have "2 * length s + 1 \<le> n" using n by simp
  from so [OF this Inl] a Inl show ?thesis by simp
next
  case (Inr p)
  obtain x rest where p: "p = (x, rest)" by (cases p)
  have rest: "length rest < length s"
    using Inr p scan_once_rest by blast
  show ?thesis
  proof (cases "starts_with [93] (skip_ws rest)")
    case True
    with a show ?thesis by (simp add: Inr p)
  next
    case False
    show ?thesis
    proof (cases "starts_with [44] (skip_ws rest)")
      case True
      have "2 * length (skip_ws (tl (skip_ws rest))) + 2 \<le> n"
        using after_delimiter [OF True] rest n by simp
      moreover have "parse_array n (skip_ws (tl (skip_ws rest))) (acc @ [x]) = Inl e"
        using a False True by (simp add: Inr p)
      ultimately show ?thesis by (rule pa)
    next
      case c: False
      with a False show ?thesis by (simp add: Inr p)
    qed
  qed
qed

lemma parse_object_Suc_fuel:
  assumes so: "\<And>s e. 2 * length s + 1 \<le> n \<Longrightarrow> scan_once n s = Inl e \<Longrightarrow> e = JSONDecodeError"
    and po: "\<And>s kvs e. 2 * length s + 2 \<le> n \<Longrightarrow> parse_object n s kvs = Inl e
        \<Longrightarrow> e = JSONDecodeError"
    and n: "2 * length s + 2 \<le> Suc n"
    and a: "parse_object (Suc n) s kvs = Inl e"
  shows "e = JSONDecodeError"
proof (cases "starts_with [34] s")
  case False
  with a show ?thesis by simp
next
  case q: True
  show ?thesis
  proof (cases "scanstring (tl s)")
    case (Inl e')
    with scanstring_error [OF Inl] q a show ?thesis by simp
  next
    case (Inr p)
    obtain key rest where p: "p = (key, rest)" by (cases p)
    have rest: "length rest < length s"
      using scanstring_rest [of "tl s" key rest] Inr p starts_with_Cons [OF q] by simp
    show ?thesis
    proof (cases "starts_with [58] (skip_ws rest)")
      case False
      with a show ?thesis by (simp add: q Inr p)
    next
      case colon: True
      let ?s1 = "skip_ws (tl (skip_ws rest))"
      have s1: "length ?s1 < length rest" by (rule after_delimiter [OF colon])
      show ?thesis
      proof (cases "scan_once n ?s1")
        case (Inl e')
        have "2 * length ?s1 + 1 \<le> n" using s1 rest n by simp
        from so [OF this Inl] a Inl show ?thesis
          by (simp add: q \<open>scanstring (tl s) = Inr p\<close> p colon)
      next
        case (Inr p2)
        obtain x rest2 where p2: "p2 = (x, rest2)" by (cases p2)
        have rest2: "length rest2 < length ?s1"
          using Inr p2 scan_once_rest by blast
        show ?thesis
        proof (cases "starts_with [125] (skip_ws rest2)")
          case True
          with a show ?thesis
            by (simp add: q \<open>scanstring (tl s) = Inr p\<close> p colon Inr p2)
        next
          case False
          show ?thesis
          proof (cases "starts_with [44] (skip_ws rest2)")
            case True
            have "2 * length (skip_ws (tl (skip_ws rest2))) + 2 \<le> n"
              using after_delimiter [OF True] rest2 s1 rest n by simp
            moreover have "parse_object n (skip_ws (tl (skip_ws rest2))) (dict_set key x kvs)
                = Inl e"
              using a False True
              by (simp add: q \<open>scanstring (tl s) = Inr p\<close> p colon Inr p2)
            ultimately show ?thesis by (rule po)
          next
            case c: False
            with a False show ?thesis
              by (simp add: q \<open>scanstring (tl s) = Inr p\<close> p colon Inr p2)
          qed
        qed
      qed
    qed
  qed
qed

lemma parser_fuel:
  "(\<forall>s e. 2 * length s + 1 \<le> n \<longrightarrow> scan_once n s = Inl e \<longrightarrow> e = JSONDecodeError)
   \<and> (\<forall>s acc e. 2 * length s + 2 \<le> n \<longrightarrow> parse_array n s acc = Inl e \<longrightarrow> e = JSONDecodeError)
   \<and> (\<forall>s kvs e. 2 * length s + 2 \<le> n \<longrightarrow> parse_object n s kvs = Inl e \<longrightarrow> e = JSONDecodeError)"
proof (induction n)
  case 0
  show ?case by simp
next
  case (Suc n)
  then have so: "\<And>s e. 2 * length s + 1 \<le> n \<Longrightarrow> scan_once n s = Inl e \<Longrightarrow> e = JSONDecodeError"
    and pa: "\<And>s acc e. 2 * length s + 2 \<le> n \<Longrightarrow> parse_array n s acc = Inl e
        \<Longrightarrow> e = JSONDecodeError"
    and po: "\<And>s kvs e. 2 * length s + 2 \<le> n \<Longrightarrow> parse_object n s kvs = Inl e
        \<Longrightarrow> e = JSONDecodeError"
    by blast+
  have 1: "e = JSONDecodeError"
    if "2 * length s + 1 \<le> Suc n" "scan_once (Suc n) s = Inl e" for s e
    using po pa that by (rule scan_once_Suc_fuel [of n])
  have 2: "e = JSONDecodeError"
    if "2 * length s + 2 \<le> Suc n" "parse_array (Suc n) s acc = Inl e" for s acc e
    using so pa that by (rule parse_array_Suc_fuel [of n])
  have 3: "e = JSONDecodeError"
    if "2 * length s + 2 \<le> Suc n" "parse_object (Suc n) s kvs = Inl e" for s kvs e
    using so po that by (rule parse_object_Suc_fuel [of n])
  from 1 2 3 show ?case by blast
qed

lemma json_loads_error: "json_loads s = Inl e \<Longrightarrow> e = JSONDecodeError"
proof -
  assume a: "json_loads s = Inl e"
  define r where "r = scan_once (2 * length s + 1) (skip_ws s)"
  have "2 * length (skip_ws s) + 1 \<le> 2 * length s + 1"
    using skip_ws_length [of s] by simp
  then have r: "r = Inl e' \<Longrightarrow> e' = JSONDecodeError" for e'
    unfolding r_def using parser_fuel by blast
  have "json_loads s =
     (if starts_with [65279] s then Inl JSONDecodeError
      else
        (case r of
           Inl e \<Rightarrow> Inl e
         | Inr (obj, rest) \<Rightarrow> if skip_ws rest = [] then Inr obj else Inl JSONDecodeError))"
    unfolding r_def by (rule json_loads_def)
  with a r show ?thesis
    by (auto split: sum.splits if_splits)
qed

lemma json_loads_fuel: "json_loads s \<noteq> Inl OutOfFuel"
  using json_loads_error [of s OutOfFuel] by auto




subsection \<open>\<open>handle_client\<close>\<close>

lemma handle_client_serves:
  assumes "\<not> closed s" and "decode (take 1024 (rx s)) = Inr doc"
    and "json_loads doc = Inr request" and "getitem request (lit ''city'') = Inr c"
  shows "handle_client s =
     (Inr 2000,
      s\<lparr>rx := drop 1024 (rx s),
        tx := tx s @ [map char_of (json_dumps (PyDict
                [(lit ''city'', c),
                 (lit ''temperature'', PyInt 20),
                 (lit ''conditions'', PyStr (lit ''sunny''))]))],
        closed := True\<rparr>)"
  using assms
  by (simp add: handle_client_def recv_def send_def close_def get_weather_data_def
      encode_json_dumps del: json_dumps.simps)

lemma handle_client_raises:
  assumes "\<not> closed s"
  shows "decode (take 1024 (rx s)) = Inl e \<Longrightarrow> handle_client s = (Inl e, s\<lparr>rx := drop 1024 (rx s)\<rparr>)"
    and "decode (take 1024 (rx s)) = Inr doc \<Longrightarrow> json_loads doc = Inl e
         \<Longrightarrow> handle_client s = (Inl e, s\<lparr>rx := drop 1024 (rx s)\<rparr>)"
    and "decode (take 1024 (rx s)) = Inr doc \<Longrightarrow> json_loads doc = Inr request
         \<Longrightarrow> getitem request (lit ''city'') = Inl e
         \<Longrightarrow> handle_client s = (Inl e, s\<lparr>rx := drop 1024 (rx s)\<rparr>)"
  using assms by (simp_all add: handle_client_def recv_def)

lemma handle_client_returns:
  assumes "fst (handle_client s) = Inr ms"
  shows "ms = 2000 \<and> closed (snd (handle_client s)) \<and> length (tx (snd (handle_client s))) = Suc (length (tx s))"
  using assms
  by (auto simp: handle_client_def recv_def send_def close_def get_weather_data_def
      encode_json_dumps simp del: json_dumps.simps split: sum.splits if_splits prod.splits)

lemma accept_loop_bound_to:
  "bound_to (snd (accept_loop me incoming srv)) = bound_to srv
   \<and> backlog (snd (accept_loop me incoming srv)) = backlog srv"
proof (induction incoming arbitrary: srv)
  case Nil
  show ?case by simp
next
  case (Cons c incoming)
  obtain client addr where c: "c = (client, addr)" by (cases c)
  obtain r client' where h: "handle_client client = (r, client')" by (cases "handle_client client")
  show ?case
  proof (cases r)
    case (Inl e)
    then show ?thesis by (simp add: c h)
  next
    case (Inr ms)
    then show ?thesis by (simp add: c h Cons.IH)
  qed
qed

lemma accept_loop_serves_all:
  assumes "\<forall>c\<in>set incoming. \<exists>ms. fst (handle_client (fst c)) = Inr ms"
  shows "accept_loop me incoming srv =
     (Blocked_in_accept,
      srv\<lparr>stdout := stdout srv
             @ map (\<lambda>c. lit ''Accepted connection from '' @ repr_address (snd c)) incoming,
          slept := slept srv + 2000 * length incoming,
          handled := handled srv @ map (\<lambda>c. (me, snd (handle_client (fst c)))) incoming\<rparr>)"
  using assms
proof (induction incoming arbitrary: srv)
  case Nil
  show ?case by simp
next
  case (Cons c incoming)
  obtain client addr where c: "c = (client, addr)" by (cases c)
  from Cons.prems obtain ms where ms: "fst (handle_client client) = Inr ms"
    by (auto simp: c)
  then have ms2: "ms = 2000" using handle_client_returns by blast
  obtain client' where h: "handle_client client = (Inr 2000, client')"
    using ms ms2 by (cases "handle_client client") auto
  have rest: "\<forall>c\<in>set incoming. \<exists>ms. fst (handle_client (fst c)) = Inr ms"
    using Cons.prems by simp
  show ?case
    by (simp add: c h Cons.IH [OF rest])
qed

lemma scanstring_plain:
  "\<forall>c\<in>set xs. 32 \<le> c \<and> c \<noteq> 34 \<and> c \<noteq> 92 \<Longrightarrow>
   scanstring (xs @ r) =
     (case scanstring r of Inl e \<Rightarrow> Inl e | Inr (s, rest) \<Rightarrow> Inr (xs @ s, rest))"
  by (induction xs) (auto simp: prepend_def split: sum.splits)

lemma long_city_text:
  "json_loads (lit ''{\"city\": \"'' @ replicate 1100 97 @ lit ''\"}'')
     = Inr (PyDict [(lit ''city'', PyStr (replicate 1100 97))])"
proof -
  have s: "scanstring (replicate 1100 97 @ [34, 125]) = Inr (replicate 1100 97, [125])"
    by (subst scanstring_plain) simp_all
  show ?thesis
    by (simp add: json_eval s)
qed

lemma cut_city_text:
  "json_loads (lit ''{\"city\": \"'' @ replicate 1014 97) = Inl JSONDecodeError"
proof -
  have s: "scanstring (replicate 1014 97) = Inl JSONDecodeError"
    using scanstring_plain [of "replicate 1014 97" "[]"] by simp
  show ?thesis
    by (simp add: json_eval s)
qed

lemma decode_ascii: "\<forall>b\<in>set bs. (of_char b :: nat) < 128 \<Longrightarrow> decode bs = Inr (map of_char bs)"
  by (simp add: decode_def utf8_points_ascii)


text \<open>
  C1, as the specification states it, fails for a request longer than 1024 octets: the
  client that asks for a city named with 1100 letters \<open>a\<close> sends the JSON object with
  that city, 1112 octets; \<open>handle_client\<close> reads the first 1024 of them, which are not
  a JSON text, raises \<open>JSONDecodeError\<close>, sends nothing and leaves the socket open.
\<close>

theorem handle_client_long_city:
  "decode (''{\"city\": \"'' @ replicate 1100 (CHR ''a'') @ ''\"}'')
     = Inr (lit ''{\"city\": \"'' @ replicate 1100 97 @ lit ''\"}'')
   \<and> json_loads (lit ''{\"city\": \"'' @ replicate 1100 97 @ lit ''\"}'')
     = Inr (PyDict [(lit ''city'', PyStr (replicate 1100 97))])
   \<and> handle_client \<lparr>rx = ''{\"city\": \"'' @ replicate 1100 (CHR ''a'') @ ''\"}'', tx = [], closed = False\<rparr>
     = (Inl JSONDecodeError, \<lparr>rx = replicate 86 (CHR ''a'') @ ''\"}'', tx = [], closed = False\<rparr>)"
proof -
  have d: "decode (''{\"city\": \"'' @ replicate 1100 (CHR ''a'') @ ''\"}'')
     = Inr (lit ''{\"city\": \"'' @ replicate 1100 97 @ lit ''\"}'')"
    by (subst decode_ascii) (simp_all add: lit_def)
  have t: "take 1024 (''{\"city\": \"'' @ replicate 1100 (CHR ''a'') @ ''\"}'')
     = ''{\"city\": \"'' @ replicate 1014 (CHR ''a'')"
    by simp
  have dr: "drop 1024 (''{\"city\": \"'' @ replicate 1100 (CHR ''a'') @ ''\"}'')
     = replicate 86 (CHR ''a'') @ ''\"}''"
    by simp
  have d2: "decode (''{\"city\": \"'' @ replicate 1014 (CHR ''a''))
     = Inr (lit ''{\"city\": \"'' @ replicate 1014 97)"
    by (subst decode_ascii) (simp_all add: lit_def)
  have h: "handle_client \<lparr>rx = ''{\"city\": \"'' @ replicate 1100 (CHR ''a'') @ ''\"}'', tx = [], closed = False\<rparr>
     = (Inl JSONDecodeError, \<lparr>rx = replicate 86 (CHR ''a'') @ ''\"}'', tx = [], closed = False\<rparr>)"
    using handle_client_raises(2) [of "\<lparr>rx = ''{\"city\": \"'' @ replicate 1100 (CHR ''a'') @ ''\"}'', tx = [], closed = False\<rparr>"
        "lit ''{\"city\": \"'' @ replicate 1014 97" JSONDecodeError]
    by (simp only: sock.simps t dr d2 cut_city_text simp_thms)
  show ?thesis using d long_city_text h by blast
qed


text \<open>
  C1, amended. For every request of at most 1024 octets that is the JSON object with the
  single key \<open>city\<close> and the value \<open>c\<close>, \<open>handle_client\<close> sleeps two seconds,
  sends in one \<open>send\<close> exactly the encoded JSON text of the dictionary with \<open>city\<close>
  \<open>c\<close>, \<open>temperature\<close> 20 and \<open>conditions\<close> \<open>sunny\<close>, and closes the socket. The
  value \<open>c\<close> is whatever \<open>json.loads\<close> returns: a string, a number (an integer or a
  float), a truth value, \<open>None\<close>, a list or a dictionary.
\<close>

theorem handle_client_echoes_city:
  assumes "\<not> closed s" and "length (rx s) \<le> 1024"
    and "decode (rx s) = Inr doc"
    and "json_loads doc = Inr (PyDict [(lit ''city'', c)])"
  shows "\<exists>response.
     encode (json_dumps (PyDict
        [(lit ''city'', c),
         (lit ''temperature'', PyInt 20),
         (lit ''conditions'', PyStr (lit ''sunny''))])) = Inr response
     \<and> handle_client s =
         (Inr 2000, s\<lparr>rx := [], tx := tx s @ [response], closed := True\<rparr>)"
proof -
  have "getitem (PyDict [(lit ''city'', c)]) (lit ''city'') = Inr c"
    by (simp add: getitem_def)
  with assms show ?thesis
    using handle_client_serves [of s doc "PyDict [(lit ''city'', c)]" c]
    by (simp add: encode_json_dumps del: json_dumps.simps)
qed

lemma london_request:
  "decode ''{\"city\": \"London\"}'' = Inr (lit ''{\"city\": \"London\"}'')"
  "json_loads (lit ''{\"city\": \"London\"}'') = Inr (PyDict [(lit ''city'', PyStr (lit ''London''))])"
  by (simp_all add: json_eval io_eval)

text \<open>
  The float of the numeral \<open>1.5\<close> is \<open>6755399441055744 * 2 ^ - 52\<close>, and its \<open>repr\<close>
  is \<open>1.5\<close> again.
\<close>

lemma float_request:
  "decode ''{\"city\": 1.5}'' = Inr (lit ''{\"city\": 1.5}'')"
  "json_loads (lit ''{\"city\": 1.5}'')
     = Inr (PyDict [(lit ''city'', PyFloat (Finite False 6755399441055744 (- 52)))])"
  by (simp_all add: json_eval float_eval io_eval)

lemma float_response:
  "encode (json_dumps (PyDict
        [(lit ''city'', PyFloat (Finite False 6755399441055744 (- 52))),
         (lit ''temperature'', PyInt 20),
         (lit ''conditions'', PyStr (lit ''sunny''))]))
     = Inr ''{\"city\": 1.5, \"temperature\": 20, \"conditions\": \"sunny\"}''"
  by (simp add: json_eval float_eval io_eval)

theorem handle_client_echoes_city_witness:
  "\<not> closed \<lparr>rx = ''{\"city\": \"London\"}'', tx = [], closed = False\<rparr>
   \<and> length (rx \<lparr>rx = ''{\"city\": \"London\"}'', tx = [], closed = False\<rparr>) \<le> 1024
   \<and> decode (rx \<lparr>rx = ''{\"city\": \"London\"}'', tx = [], closed = False\<rparr>)
       = Inr (lit ''{\"city\": \"London\"}'')
   \<and> json_loads (lit ''{\"city\": \"London\"}'')
       = Inr (PyDict [(lit ''city'', PyStr (lit ''London''))])
   \<and> handle_client \<lparr>rx = ''{\"city\": \"London\"}'', tx = [], closed = False\<rparr>
       = (Inr 2000,
          \<lparr>rx = [],
           tx = [''{\"city\": \"London\", \"temperature\": 20, \"conditions\": \"sunny\"}''],
           closed = True\<rparr>)
   \<and> \<not> closed \<lparr>rx = ''{\"city\": 1.5}'', tx = [], closed = False\<rparr>
   \<and> length (rx \<lparr>rx = ''{\"city\": 1.5}'', tx = [], closed = False\<rparr>) \<le> 1024
   \<and> decode (rx \<lparr>rx = ''{\"city\": 1.5}'', tx = [], closed = False\<rparr>)
       = Inr (lit ''{\"city\": 1.5}'')
   \<and> json_loads (lit ''{\"city\": 1.5}'')
       = Inr (PyDict [(lit ''city'', PyFloat (Finite False 6755399441055744 (- 52)))])
   \<and> handle_client \<lparr>rx = ''{\"city\": 1.5}'', tx = [], closed = False\<rparr>
       = (Inr 2000,
          \<lparr>rx = [],
           tx = [''{\"city\": 1.5, \"temperature\": 20, \"conditions\": \"sunny\"}''],
           closed = True\<rparr>)"
proof -
  let ?s = "\<lparr>rx = ''{\"city\": \"London\"}'', tx = [], closed = False\<rparr>"
  let ?t = "\<lparr>rx = ''{\"city\": 1.5}'', tx = [], closed = False\<rparr>"
  have 1: "\<not> closed ?s" by simp
  have 2: "length (rx ?s) \<le> 1024" by simp
  have 3: "decode (rx ?s) = Inr (lit ''{\"city\": \"London\"}'')"
    by (simp add: london_request)
  have 4: "json_loads (lit ''{\"city\": \"London\"}'')
       = Inr (PyDict [(lit ''city'', PyStr (lit ''London''))])"
    by (rule london_request)
  have 5: "encode (json_dumps (PyDict
        [(lit ''city'', PyStr (lit ''London'')),
         (lit ''temperature'', PyInt 20),
         (lit ''conditions'', PyStr (lit ''sunny''))]))
     = Inr ''{\"city\": \"London\", \"temperature\": 20, \"conditions\": \"sunny\"}''"
    by (simp add: json_eval io_eval)
  from handle_client_echoes_city [OF 1 2 3 4] 5
  have london: "handle_client ?s =
         (Inr 2000,
          \<lparr>rx = [],
           tx = [''{\"city\": \"London\", \"temperature\": 20, \"conditions\": \"sunny\"}''],
           closed = True\<rparr>)"
    by (simp del: json_dumps.simps)
  have 6: "\<not> closed ?t" by simp
  have 7: "length (rx ?t) \<le> 1024" by simp
  have 8: "decode (rx ?t) = Inr (lit ''{\"city\": 1.5}'')"
    by (simp add: float_request)
  have 9: "json_loads (lit ''{\"city\": 1.5}'')
       = Inr (PyDict [(lit ''city'', PyFloat (Finite False 6755399441055744 (- 52)))])"
    by (rule float_request)
  from handle_client_echoes_city [OF 6 7 8 9] float_response
  have "handle_client ?t =
         (Inr 2000,
          \<lparr>rx = [],
           tx = [''{\"city\": 1.5, \"temperature\": 20, \"conditions\": \"sunny\"}''],
           closed = True\<rparr>)"
    by (simp del: json_dumps.simps)
  with 1 2 3 4 london 6 7 8 9 show ?thesis by blast
qed

subsection \<open>The accept loop\<close>














lemma handle_client_london:
  "handle_client \<lparr>rx = ''{\"city\": \"London\"}'', tx = [], closed = False\<rparr>
     = (Inr 2000,
        \<lparr>rx = [],
         tx = [''{\"city\": \"London\", \"temperature\": 20, \"conditions\": \"sunny\"}''],
         closed = True\<rparr>)"
  by (simp add: json_eval io_eval)

lemma handle_client_paris:
  "handle_client \<lparr>rx = ''{\"city\": \"Paris\"}'', tx = [], closed = False\<rparr>
     = (Inr 2000,
        \<lparr>rx = [],
         tx = [''{\"city\": \"Paris\", \"temperature\": 20, \"conditions\": \"sunny\"}''],
         closed = True\<rparr>)"
  by (simp add: json_eval io_eval)

text \<open>
  C3, as the specification states it, fails: the accept loop does not complete after a
  connection. With two clients waiting, the server answers the first, accepts the second,
  answers it too, and is then blocked in \<open>accept\<close> again.
\<close>

theorem server_serves_second_connection:
  "fst (run_weather_server MainThread
      [(\<lparr>rx = ''{\"city\": \"London\"}'', tx = [], closed = False\<rparr>, (lit ''127.0.0.1'', 50001)),
       (\<lparr>rx = ''{\"city\": \"Paris\"}'', tx = [], closed = False\<rparr>, (lit ''127.0.0.1'', 50002))])
     = Blocked_in_accept
   \<and> map (\<lambda>h. tx (snd h)) (handled (snd (run_weather_server MainThread
      [(\<lparr>rx = ''{\"city\": \"London\"}'', tx = [], closed = False\<rparr>, (lit ''127.0.0.1'', 50001)),
       (\<lparr>rx = ''{\"city\": \"Paris\"}'', tx = [], closed = False\<rparr>, (lit ''127.0.0.1'', 50002))])))
     = [[''{\"city\": \"London\", \"temperature\": 20, \"conditions\": \"sunny\"}''],
        [''{\"city\": \"Paris\", \"temperature\": 20, \"conditions\": \"sunny\"}'']]"
  by (simp add: run_weather_server_def server_socket_def handle_client_london handle_client_paris)

lemma accept_loop_raised:
  "fst (accept_loop me incoming srv) = Raised e
   \<Longrightarrow> \<exists>c\<in>set incoming. fst (handle_client (fst c)) = Inl e"
proof (induction incoming arbitrary: srv)
  case Nil
  then show ?case by simp
next
  case (Cons c incoming)
  obtain client addr where c: "c = (client, addr)" by (cases c)
  obtain r client' where h: "handle_client client = (r, client')" by (cases "handle_client client")
  show ?case
  proof (cases r)
    case (Inl e')
    with Cons.prems show ?thesis by (simp add: c h)
  next
    case (Inr ms)
    with Cons.prems have "\<exists>c\<in>set incoming. fst (handle_client (fst c)) = Inl e"
      by (simp add: c h Cons.IH)
    then show ?thesis by simp
  qed
qed

text \<open>
  C3, amended. \<open>run_weather_server\<close> accepts the connections one after another. As long
  as \<open>handle_client\<close> returns, each connection is handled on the server's thread with
  two seconds of sleep and its client socket closed, and the server goes on to accept the
  next; when every connection that arrived has been served, the server is blocked in
  \<open>accept\<close>. The loop never completes of its own: it ends only with an exception that
  \<open>handle_client\<close> raised.
\<close>

theorem server_keeps_accepting:
  "((\<forall>c\<in>set incoming. \<exists>ms. fst (handle_client (fst c)) = Inr ms) \<longrightarrow>
      fst (run_weather_server me incoming) = Blocked_in_accept
      \<and> handled (snd (run_weather_server me incoming))
          = map (\<lambda>c. (me, snd (handle_client (fst c)))) incoming
      \<and> slept (snd (run_weather_server me incoming)) = 2000 * length incoming
      \<and> list_all (\<lambda>h. closed (snd h)) (handled (snd (run_weather_server me incoming))))
   \<and> (\<forall>e. fst (run_weather_server me incoming) = Raised e \<longrightarrow>
        (\<exists>c\<in>set incoming. fst (handle_client (fst c)) = Inl e))"
proof (intro conjI impI allI)
  assume ok: "\<forall>c\<in>set incoming. \<exists>ms. fst (handle_client (fst c)) = Inr ms"
  have run: "run_weather_server me incoming =
     (Blocked_in_accept,
      server_socket\<lparr>stdout := stdout server_socket
             @ map (\<lambda>c. lit ''Accepted connection from '' @ repr_address (snd c)) incoming,
          slept := slept server_socket + 2000 * length incoming,
          handled := handled server_socket
             @ map (\<lambda>c. (me, snd (handle_client (fst c)))) incoming\<rparr>)"
    unfolding run_weather_server_def using ok by (rule accept_loop_serves_all)
  have closed: "list_all (\<lambda>h. closed (snd h)) (map (\<lambda>c. (me, snd (handle_client (fst c)))) incoming)"
    using ok handle_client_returns by (fastforce simp: list_all_iff)
  show "fst (run_weather_server me incoming) = Blocked_in_accept"
    by (simp add: run)
  show "handled (snd (run_weather_server me incoming))
          = map (\<lambda>c. (me, snd (handle_client (fst c)))) incoming"
    by (simp add: run server_socket_def)
  show "slept (snd (run_weather_server me incoming)) = 2000 * length incoming"
    by (simp add: run server_socket_def)
  show "list_all (\<lambda>h. closed (snd h)) (handled (snd (run_weather_server me incoming)))"
    using closed by (simp add: run server_socket_def)
next
  fix e
  assume "fst (run_weather_server me incoming) = Raised e"
  then show "\<exists>c\<in>set incoming. fst (handle_client (fst c)) = Inl e"
    unfolding run_weather_server_def by (rule accept_loop_raised)
qed

lemma handle_client_bare_word:
  "handle_client \<lparr>rx = ''London'', tx = [], closed = False\<rparr>
     = (Inl JSONDecodeError, \<lparr>rx = [], tx = [], closed = False\<rparr>)"
  by (simp add: json_eval io_eval)

theorem server_keeps_accepting_witness:
  "fst (handle_client \<lparr>rx = ''{\"city\": \"London\"}'', tx = [], closed = False\<rparr>) = Inr 2000
   \<and> fst (handle_client \<lparr>rx = ''{\"city\": \"Paris\"}'', tx = [], closed = False\<rparr>) = Inr 2000
   \<and> fst (run_weather_server (Thread 1)
        [(\<lparr>rx = ''{\"city\": \"London\"}'', tx = [], closed = False\<rparr>, (lit ''127.0.0.1'', 50001)),
         (\<lparr>rx = ''{\"city\": \"Paris\"}'', tx = [], closed = False\<rparr>, (lit ''127.0.0.1'', 50002))])
       = Blocked_in_accept
   \<and> slept (snd (run_weather_server (Thread 1)
        [(\<lparr>rx = ''{\"city\": \"London\"}'', tx = [], closed = False\<rparr>, (lit ''127.0.0.1'', 50001)),
         (\<lparr>rx = ''{\"city\": \"Paris\"}'', tx = [], closed = False\<rparr>, (lit ''127.0.0.1'', 50002))]))
       = 4000
   \<and> length (handled (snd (run_weather_server (Thread 1)
        [(\<lparr>rx = ''{\"city\": \"London\"}'', tx = [], closed = False\<rparr>, (lit ''127.0.0.1'', 50001)),
         (\<lparr>rx = ''{\"city\": \"Paris\"}'', tx = [], closed = False\<rparr>, (lit ''127.0.0.1'', 50002))])))
       = 2
   \<and> fst (run_weather_server (Thread 1)
        [(\<lparr>rx = ''London'', tx = [], closed = False\<rparr>, (lit ''127.0.0.1'', 50001))])
       = Raised JSONDecodeError
   \<and> fst (handle_client \<lparr>rx = ''London'', tx = [], closed = False\<rparr>) = Inl JSONDecodeError"
proof -
  let ?incoming = "[(\<lparr>rx = ''{\"city\": \"London\"}'', tx = [], closed = False\<rparr>, (lit ''127.0.0.1'', 50001::nat)),
              (\<lparr>rx = ''{\"city\": \"Paris\"}'', tx = [], closed = False\<rparr>, (lit ''127.0.0.1'', 50002::nat))]"
  let ?bad = "[(\<lparr>rx = ''London'', tx = [], closed = False\<rparr>, (lit ''127.0.0.1'', 50001::nat))]"
  have ok: "\<forall>c\<in>set ?incoming. fst (handle_client (fst c)) = Inr 2000"
    by (simp add: handle_client_london handle_client_paris)
  then have all: "\<forall>c\<in>set ?incoming. \<exists>ms. fst (handle_client (fst c)) = Inr ms"
    by blast
  have raised: "fst (run_weather_server (Thread 1) ?bad) = Raised JSONDecodeError"
    by (simp add: run_weather_server_def handle_client_bare_word)
  from server_keeps_accepting [of ?bad "Thread 1"] raised
  have "\<exists>c\<in>set ?bad. fst (handle_client (fst c)) = Inl JSONDecodeError"
    by blast
  then have bad: "fst (handle_client \<lparr>rx = ''London'', tx = [], closed = False\<rparr>) = Inl JSONDecodeError"
    by simp
  from server_keeps_accepting [of ?incoming "Thread 1"] all
  have "fst (run_weather_server (Thread 1) ?incoming) = Blocked_in_accept
      \<and> slept (snd (run_weather_server (Thread 1) ?incoming)) = 2000 * length ?incoming
      \<and> handled (snd (run_weather_server (Thread 1) ?incoming))
          = map (\<lambda>c. (Thread 1, snd (handle_client (fst c)))) ?incoming"
    by blast
  with ok raised bad show ?thesis
    by simp
qed

text \<open>
  C6. The server binds to \<open>('localhost', 8000)\<close> whatever thread runs it and whatever
  connections arrive, and \<open>test_client\<close> connects to \<open>('localhost', 8000)\<close> whatever the
  city and the state of the world: neither program takes the address from an input.
\<close>

theorem address_is_hardcoded:
  "bound_to (snd (run_weather_server me incoming)) = Some (lit ''localhost'', 8000)
   \<and> connects (snd (test_client city w)) = connects w @ [(lit ''localhost'', 8000)]"
proof -
  have "bound_to (snd (run_weather_server me incoming)) = Some (lit ''localhost'', 8000)"
    by (simp add: run_weather_server_def accept_loop_bound_to server_socket_def)
  moreover have "connects (snd (test_client city w)) = connects w @ [(lit ''localhost'', 8000)]"
    by (simp add: test_client_def Let_def split: prod.splits status.splits sum.splits)
  ultimately show ?thesis by blast
qed

theorem address_is_hardcoded_witness:
  "bound_to (snd (run_weather_server MainThread [])) = Some (lit ''localhost'', 8000)
   \<and> connects (snd (test_client (lit ''London'')
         (start_server_thread (\<lambda>n. (lit ''127.0.0.1'', 50000 + n)))))
       = [(lit ''localhost'', 8000)]"
  using address_is_hardcoded [of MainThread "[]" "lit ''London''"
      "start_server_thread (\<lambda>n. (lit ''127.0.0.1'', 50000 + n))"]
  by (simp add: start_server_thread_def)

subsection \<open>The round trip of a city name\<close>

lemma escape_plain: "plain_name c \<Longrightarrow> concat (map escape_ascii c) = c"
  by (induction c) (simp_all add: plain_name_def escape_ascii_def)

lemma plain_scan: "plain_name c \<Longrightarrow> \<forall>x\<in>set c. 32 \<le> x \<and> x \<noteq> 34 \<and> x \<noteq> 92"
  by (simp add: plain_name_def list_all_iff)

lemma plain_ascii: "plain_name c \<Longrightarrow> \<forall>x\<in>set c. x < 128"
  by (auto simp: plain_name_def list_all_iff)

lemma scanstring_name:
  "plain_name c \<Longrightarrow> scanstring (c @ 34 # r) = Inr (c, r)"
  using scanstring_plain [OF plain_scan, of c "34 # r"] by simp

lemma request_text:
  assumes "plain_name c"
  shows "json_dumps (PyDict [(lit ''city'', PyStr c)]) = lit ''{\"city\": \"'' @ c @ lit ''\"}''"
  using assms by (simp add: encode_basestring_ascii_def escape_plain escape_ascii_def lit_def)

lemma response_text:
  assumes "plain_name c"
  shows "json_dumps (PyDict [(lit ''city'', PyStr c), (lit ''temperature'', PyInt 20),
            (lit ''conditions'', PyStr (lit ''sunny''))])
     = lit ''{\"city\": \"'' @ c @ lit ''\", \"temperature\": 20, \"conditions\": \"sunny\"}''"
  using assms
  by (simp add: encode_basestring_ascii_def escape_plain escape_ascii_def lit_def int_repr_def
      digits.simps)

lemma loads_request:
  assumes "plain_name c"
  shows "json_loads (lit ''{\"city\": \"'' @ c @ lit ''\"}'') = Inr (PyDict [(lit ''city'', PyStr c)])"
proof -
  have s: "scanstring (c @ [34, 125]) = Inr (c, [125])"
    using scanstring_name [OF assms, of "[125]"] by simp
  show ?thesis
    by (simp add: json_eval s)
qed

lemma loads_response:
  assumes "plain_name c"
  shows "json_loads (lit ''{\"city\": \"'' @ c @ lit ''\", \"temperature\": 20, \"conditions\": \"sunny\"}'')
     = Inr (PyDict [(lit ''city'', PyStr c), (lit ''temperature'', PyInt 20),
            (lit ''conditions'', PyStr (lit ''sunny''))])"
proof -
  have s: "\<And>r. scanstring (c @ 34 # r) = Inr (c, r)"
    using scanstring_name [OF assms] by simp
  show ?thesis
    by (simp add: json_eval s)
qed

lemma decode_char_of: "\<forall>x\<in>set xs. x < 128 \<Longrightarrow> decode (map char_of xs) = Inr xs"
proof -
  assume a: "\<forall>x\<in>set xs. x < 128"
  then have "map (of_char \<circ> char_of) xs = xs"
    by (induction xs) simp_all
  with a show ?thesis
    by (simp add: decode_def utf8_points_ascii)
qed

lemma request_ascii:
  "plain_name c \<Longrightarrow> \<forall>x\<in>set (lit ''{\"city\": \"'' @ c @ lit ''\"}''). x < 128"
  using plain_ascii [of c] by (auto simp: lit_def)

lemma response_ascii:
  "plain_name c \<Longrightarrow>
   \<forall>x\<in>set (lit ''{\"city\": \"'' @ c @ lit ''\", \"temperature\": 20, \"conditions\": \"sunny\"}''). x < 128"
  using plain_ascii [of c] by (auto simp: lit_def)

lemma handle_client_plain:
  assumes "plain_name c" and "length c \<le> 1012"
  shows "handle_client \<lparr>rx = map char_of (lit ''{\"city\": \"'' @ c @ lit ''\"}''), tx = [], closed = False\<rparr>
     = (Inr 2000,
        \<lparr>rx = [],
         tx = [map char_of
                (lit ''{\"city\": \"'' @ c @ lit ''\", \"temperature\": 20, \"conditions\": \"sunny\"}'')],
         closed = True\<rparr>)"
proof -
  let ?s = "\<lparr>rx = map char_of (lit ''{\"city\": \"'' @ c @ lit ''\"}''), tx = [], closed = False\<rparr>"
  have len: "length (rx ?s) \<le> 1024"
    using assms(2) by (simp add: lit_def)
  have 1: "\<not> closed ?s" by simp
  have 2: "decode (take 1024 (rx ?s)) = Inr (lit ''{\"city\": \"'' @ c @ lit ''\"}'')"
    using len decode_char_of [OF request_ascii [OF assms(1)]] by simp
  have 3: "getitem (PyDict [(lit ''city'', PyStr c)]) (lit ''city'') = Inr (PyStr c)"
    by (simp add: getitem_def)
  have "drop 1024 (rx ?s) = []"
    using len by simp
  then show ?thesis
    using handle_client_serves [OF 1 2 loads_request [OF assms(1)] 3]
    by (simp add: response_text [OF assms(1)] del: json_dumps.simps)
qed

text \<open>
  C4, as the specification states it, fails: the demo does have a round trip. The client
  encodes the city London into its request; \<open>handle_client\<close> decodes the request,
  and the response it sends is JSON text whose \<open>city\<close> field decodes to London
  again.
\<close>

theorem london_round_trip:
  "encode (json_dumps (PyDict [(lit ''city'', PyStr (lit ''London''))]))
     = Inr ''{\"city\": \"London\"}''
   \<and> handle_client \<lparr>rx = ''{\"city\": \"London\"}'', tx = [], closed = False\<rparr>
     = (Inr 2000,
        \<lparr>rx = [],
         tx = [''{\"city\": \"London\", \"temperature\": 20, \"conditions\": \"sunny\"}''],
         closed = True\<rparr>)
   \<and> decode ''{\"city\": \"London\", \"temperature\": 20, \"conditions\": \"sunny\"}''
     = Inr (lit ''{\"city\": \"London\", \"temperature\": 20, \"conditions\": \"sunny\"}'')
   \<and> json_loads (lit ''{\"city\": \"London\", \"temperature\": 20, \"conditions\": \"sunny\"}'')
     = Inr (PyDict [(lit ''city'', PyStr (lit ''London'')), (lit ''temperature'', PyInt 20),
                    (lit ''conditions'', PyStr (lit ''sunny''))])
   \<and> getitem (PyDict [(lit ''city'', PyStr (lit ''London'')), (lit ''temperature'', PyInt 20),
                    (lit ''conditions'', PyStr (lit ''sunny''))]) (lit ''city'')
     = Inr (PyStr (lit ''London''))"
proof -
  have "encode (json_dumps (PyDict [(lit ''city'', PyStr (lit ''London''))]))
     = Inr ''{\"city\": \"London\"}''"
    by (simp add: json_eval io_eval)
  moreover have "decode ''{\"city\": \"London\", \"temperature\": 20, \"conditions\": \"sunny\"}''
     = Inr (lit ''{\"city\": \"London\", \"temperature\": 20, \"conditions\": \"sunny\"}'')"
    by (simp add: json_eval io_eval)
  moreover have "json_loads (lit ''{\"city\": \"London\", \"temperature\": 20, \"conditions\": \"sunny\"}'')
     = Inr (PyDict [(lit ''city'', PyStr (lit ''London'')), (lit ''temperature'', PyInt 20),
                    (lit ''conditions'', PyStr (lit ''sunny''))])"
    by (simp add: json_eval)
  moreover have "getitem (PyDict [(lit ''city'', PyStr (lit ''London'')), (lit ''temperature'', PyInt 20),
                    (lit ''conditions'', PyStr (lit ''sunny''))]) (lit ''city'')
     = Inr (PyStr (lit ''London''))"
    by (simp add: getitem_def)
  ultimately show ?thesis
    using handle_client_london by blast
qed

text \<open>
  C4, amended. The weather demo has a round trip. For every city name of at most 1012
  printable ASCII characters other than the double quote and the backslash, the request
  that \<open>test_client\<close> encodes is answered by \<open>handle_client\<close> with a response that
  is JSON text whose \<open>city\<close> field decodes to the same name.
\<close>

theorem city_round_trip:
  assumes "plain_name c" and "length c \<le> 1012"
  shows "\<exists>request response doc v.
      encode (json_dumps (PyDict [(lit ''city'', PyStr c)])) = Inr request
    \<and> handle_client \<lparr>rx = request, tx = [], closed = False\<rparr>
        = (Inr 2000, \<lparr>rx = [], tx = [response], closed = True\<rparr>)
    \<and> decode response = Inr doc
    \<and> json_loads doc = Inr v
    \<and> getitem v (lit ''city'') = Inr (PyStr c)"
proof -
  let ?req = "lit ''{\"city\": \"'' @ c @ lit ''\"}''"
  let ?resp = "lit ''{\"city\": \"'' @ c @ lit ''\", \"temperature\": 20, \"conditions\": \"sunny\"}''"
  let ?v = "PyDict [(lit ''city'', PyStr c), (lit ''temperature'', PyInt 20),
            (lit ''conditions'', PyStr (lit ''sunny''))]"
  have "encode (json_dumps (PyDict [(lit ''city'', PyStr c)])) = Inr (map char_of ?req)"
    using encode_json_dumps [of "PyDict [(lit ''city'', PyStr c)]"]
    by (simp only: request_text [OF assms(1)])
  moreover have "handle_client \<lparr>rx = map char_of ?req, tx = [], closed = False\<rparr>
        = (Inr 2000, \<lparr>rx = [], tx = [map char_of ?resp], closed = True\<rparr>)"
    using assms by (rule handle_client_plain)
  moreover have "decode (map char_of ?resp) = Inr ?resp"
    by (rule decode_char_of [OF response_ascii [OF assms(1)]])
  moreover have "json_loads ?resp = Inr ?v"
    by (rule loads_response [OF assms(1)])
  moreover have "getitem ?v (lit ''city'') = Inr (PyStr c)"
    by (simp add: getitem_def)
  ultimately show ?thesis by blast
qed

theorem city_round_trip_witness:
  "plain_name (lit ''Tokyo'') \<and> length (lit ''Tokyo'') \<le> 1012
   \<and> (\<exists>request response doc v.
      encode (json_dumps (PyDict [(lit ''city'', PyStr (lit ''Tokyo''))])) = Inr request
    \<and> handle_client \<lparr>rx = request, tx = [], closed = False\<rparr>
        = (Inr 2000, \<lparr>rx = [], tx = [response], closed = True\<rparr>)
    \<and> decode response = Inr doc
    \<and> json_loads doc = Inr v
    \<and> getitem v (lit ''city'') = Inr (PyStr (lit ''Tokyo'')))"
proof -
  have 1: "plain_name (lit ''Tokyo'')" by (simp add: plain_name_def lit_def)
  have 2: "length (lit ''Tokyo'') \<le> 1012" by (simp add: lit_def)
  from city_round_trip [OF 1 2] 1 2 show ?thesis by blast
qed

subsection \<open>The main program\<close>

lemma test_client_plain:
  assumes "plain_name c" and "length c \<le> 969"
    and "fst (srv_run w) = Blocked_in_accept"
    and "bound_to (snd (srv_run w)) = Some (lit ''localhost'', 8000)"
    and "backlog (snd (srv_run w)) \<noteq> None"
  shows "test_client c w =
     (Inr (),
      w\<lparr>connects := connects w @ [(lit ''localhost'', 8000)],
        srv_run := (Blocked_in_accept,
          (snd (srv_run w))
            \<lparr>stdout := stdout (snd (srv_run w))
               @ [lit ''Accepted connection from ''
                  @ repr_address (local_addr w (length (connects w)))],
             slept := slept (snd (srv_run w)) + 2000,
             handled := handled (snd (srv_run w))
               @ [(srv_thread w,
                   \<lparr>rx = [],
                    tx = [map char_of (lit ''{\"city\": \"'' @ c
                            @ lit ''\", \"temperature\": 20, \"conditions\": \"sunny\"}'')],
                    closed = True\<rparr>)]\<rparr>),
        console := console w
          @ [lit ''Received weather for '' @ c @ lit '': '' @ lit ''{\"city\": \"'' @ c
             @ lit ''\", \"temperature\": 20, \"conditions\": \"sunny\"}'']\<rparr>)"
proof -
  let ?resp = "lit ''{\"city\": \"'' @ c @ lit ''\", \"temperature\": 20, \"conditions\": \"sunny\"}''"
  obtain sv where run: "srv_run w = (Blocked_in_accept, sv)"
    using assms(3) by (cases "srv_run w") simp
  have sv: "bound_to sv = Some (lit ''localhost'', 8000)" "backlog sv \<noteq> None"
    using assms(4,5) by (simp_all add: run)
  have enc: "encode (json_dumps (PyDict [(lit ''city'', PyStr c)]))
      = Inr (map char_of (lit ''{\"city\": \"'' @ c @ lit ''\"}''))"
    using encode_json_dumps [of "PyDict [(lit ''city'', PyStr c)]"]
    by (simp only: request_text [OF assms(1)])
  have h: "handle_client \<lparr>rx = map char_of (lit ''{\"city\": \"'' @ c @ lit ''\"}''), tx = [], closed = False\<rparr>
        = (Inr 2000, \<lparr>rx = [], tx = [map char_of ?resp], closed = True\<rparr>)"
    using assms(1,2) by (intro handle_client_plain) simp_all
  have "length ?resp \<le> 1024"
    using assms(2) by (simp add: lit_def)
  then have dec: "decode (take 1024 (map char_of ?resp)) = Inr ?resp"
    using decode_char_of [OF response_ascii [OF assms(1)]] by simp
  show ?thesis
    using sv
    by (simp add: test_client_def Let_def run enc h dec del: json_dumps.simps map_append)
qed

lemma accept_loop_handled_threads:
  "fst ` set (handled (snd (accept_loop me incoming sv))) \<subseteq> fst ` set (handled sv) \<union> {me}"
proof (induction incoming arbitrary: sv)
  case Nil
  show ?case by auto
next
  case (Cons c incoming)
  obtain client addr where c: "c = (client, addr)" by (cases c)
  obtain r client' where h: "handle_client client = (r, client')" by (cases "handle_client client")
  show ?case
  proof (cases r)
    case (Inl e)
    then show ?thesis by (auto simp: c h)
  next
    case (Inr ms)
    let ?sv = "sv\<lparr>stdout := stdout sv @ [lit ''Accepted connection from '' @ repr_address addr],
                 slept := slept sv + ms,
                 handled := handled sv @ [(me, client')]\<rparr>"
    have "fst ` set (handled (snd (accept_loop me incoming ?sv))) \<subseteq> fst ` set (handled ?sv) \<union> {me}"
      by (rule Cons.IH)
    then show ?thesis by (auto simp: c h Inr)
  qed
qed

lemma test_client_threads:
  "threads (snd (test_client city w)) = threads w
   \<and> srv_thread (snd (test_client city w)) = srv_thread w
   \<and> fst ` set (handled (snd (srv_run (snd (test_client city w)))))
       \<subseteq> fst ` set (handled (snd (srv_run w))) \<union> {srv_thread w}"
proof -
  obtain st sv where run: "srv_run w = (st, sv)" by (cases "srv_run w")
  show ?thesis
  proof (cases st)
    case (Raised e)
    then show ?thesis by (auto simp: test_client_def run)
  next
    case Blocked_in_accept
    show ?thesis
    proof (cases "encode (json_dumps (PyDict [(lit ''city'', PyStr city)]))")
      case (Inl e)
      then show ?thesis
        by (auto simp: test_client_def run Blocked_in_accept Let_def simp del: json_dumps.simps)
    next
      case (Inr request)
      let ?arrived = "[(\<lparr>rx = request, tx = [], closed = False\<rparr>, local_addr w (length (connects w)))]"
      obtain st' sv' where loop: "accept_loop (srv_thread w) ?arrived sv = (st', sv')"
        by (cases "accept_loop (srv_thread w) ?arrived sv")
      have sub: "fst ` set (handled sv') \<subseteq> fst ` set (handled sv) \<union> {srv_thread w}"
        using accept_loop_handled_threads [of "srv_thread w" ?arrived sv]
        by (simp only: loop snd_conv)
      show ?thesis
        using sub
        by (cases st')
          (auto simp: test_client_def run Blocked_in_accept Let_def Inr loop
            simp del: json_dumps.simps accept_loop.simps split: sum.splits)
    qed
  qed
qed

lemma for_each_city_threads:
  "threads (snd (for_each_city cs w)) = threads w
   \<and> srv_thread (snd (for_each_city cs w)) = srv_thread w
   \<and> fst ` set (handled (snd (srv_run (snd (for_each_city cs w)))))
       \<subseteq> fst ` set (handled (snd (srv_run w))) \<union> {srv_thread w}"
proof (induction cs arbitrary: w)
  case Nil
  show ?case by auto
next
  case (Cons city cs)
  obtain r w' where t: "test_client city w = (r, w')" by (cases "test_client city w")
  have w': "threads w' = threads w" "srv_thread w' = srv_thread w"
     "fst ` set (handled (snd (srv_run w'))) \<subseteq> fst ` set (handled (snd (srv_run w))) \<union> {srv_thread w}"
    using test_client_threads [of city w] by (simp_all add: t)
  show ?case
  proof (cases r)
    case (Inl e)
    then show ?thesis using w' by (simp add: t)
  next
    case (Inr u)
    have "fst ` set (handled (snd (srv_run (snd (for_each_city cs w')))))
        \<subseteq> fst ` set (handled (snd (srv_run w'))) \<union> {srv_thread w'}"
      using Cons.IH [of w'] by blast
    then have "fst ` set (handled (snd (srv_run (snd (for_each_city cs w')))))
        \<subseteq> fst ` set (handled (snd (srv_run w'))) \<union> {srv_thread w}"
      by (simp only: w'(2))
    with w'(3) have "fst ` set (handled (snd (srv_run (snd (for_each_city cs w')))))
        \<subseteq> fst ` set (handled (snd (srv_run w))) \<union> {srv_thread w}"
      by blast
    then show ?thesis using w' Cons.IH [of w'] by (simp add: t Inr)
  qed
qed

lemma main_run:
  "main (\<lambda>n. (lit ''127.0.0.1'', 50000 + n)) =
     (Inr (),
      \<lparr>threads = [Thread 1],
       srv_thread = Thread 1,
       srv_run = (Blocked_in_accept,
         \<lparr>bound_to = Some (lit ''localhost'', 8000),
          backlog = Some 5,
          stdout = [lit ''Weather server started on port 8000'',
                    lit ''Accepted connection from ('' @ [39] @ lit ''127.0.0.1'' @ [39] @ lit '', 50000)'',
                    lit ''Accepted connection from ('' @ [39] @ lit ''127.0.0.1'' @ [39] @ lit '', 50001)'',
                    lit ''Accepted connection from ('' @ [39] @ lit ''127.0.0.1'' @ [39] @ lit '', 50002)'',
                    lit ''Accepted connection from ('' @ [39] @ lit ''127.0.0.1'' @ [39] @ lit '', 50003)'',
                    lit ''Accepted connection from ('' @ [39] @ lit ''127.0.0.1'' @ [39] @ lit '', 50004)''],
          slept = 10000,
          handled =
            [(Thread 1, \<lparr>rx = [], tx = [''{\"city\": \"London\", \"temperature\": 20, \"conditions\": \"sunny\"}''], closed = True\<rparr>),
             (Thread 1, \<lparr>rx = [], tx = [''{\"city\": \"Paris\", \"temperature\": 20, \"conditions\": \"sunny\"}''], closed = True\<rparr>),
             (Thread 1, \<lparr>rx = [], tx = [''{\"city\": \"New York\", \"temperature\": 20, \"conditions\": \"sunny\"}''], closed = True\<rparr>),
             (Thread 1, \<lparr>rx = [], tx = [''{\"city\": \"Tokyo\", \"temperature\": 20, \"conditions\": \"sunny\"}''], closed = True\<rparr>),
             (Thread 1, \<lparr>rx = [], tx = [''{\"city\": \"Berlin\", \"temperature\": 20, \"conditions\": \"sunny\"}''], closed = True\<rparr>)]\<rparr>),
       connects = [(lit ''localhost'', 8000), (lit ''localhost'', 8000), (lit ''localhost'', 8000),
                   (lit ''localhost'', 8000), (lit ''localhost'', 8000)],
       console =
         [lit ''Received weather for London: {\"city\": \"London\", \"temperature\": 20, \"conditions\": \"sunny\"}'',
          lit ''Received weather for Paris: {\"city\": \"Paris\", \"temperature\": 20, \"conditions\": \"sunny\"}'',
          lit ''Received weather for New York: {\"city\": \"New York\", \"temperature\": 20, \"conditions\": \"sunny\"}'',
          lit ''Received weather for Tokyo: {\"city\": \"Tokyo\", \"temperature\": 20, \"conditions\": \"sunny\"}'',
          lit ''Received weather for Berlin: {\"city\": \"Berlin\", \"temperature\": 20, \"conditions\": \"sunny\"}''],
       local_addr = (\<lambda>n. (lit ''127.0.0.1'', 50000 + n))\<rparr>)"
  by (simp add: main_def cities_def start_server_thread_def run_weather_server_def
      server_socket_def test_client_plain plain_name_def lit_def repr_address_def int_repr_def
      digits.simps char_of_eq_iff)

text \<open>
  C5, as the specification states it, fails: the requests are not handled on threads of
  their own. In a run of the main program the five requests are all handled on the one
  thread the program starts, the server's.
\<close>

theorem requests_share_one_thread:
  "fst (main (\<lambda>n. (lit ''127.0.0.1'', 50000 + n))) = Inr ()
   \<and> threads (snd (main (\<lambda>n. (lit ''127.0.0.1'', 50000 + n)))) = [Thread 1]
   \<and> map fst (handled (snd (srv_run (snd (main (\<lambda>n. (lit ''127.0.0.1'', 50000 + n)))))))
       = [Thread 1, Thread 1, Thread 1, Thread 1, Thread 1]
   \<and> \<not> distinct (map fst (handled (snd (srv_run (snd (main (\<lambda>n. (lit ''127.0.0.1'', 50000 + n))))))))"
  by (simp add: main_run)

text \<open>
  C5, amended. The synchronous example uses one blocking server thread and no pool: the
  main program starts a single thread, with \<open>run_weather_server\<close> as its target, and
  every client request is handled on that thread, one after the other; no thread is
  started for a request.
\<close>

theorem one_thread_serves_all:
  "threads (snd (for_each_city cs (start_server_thread addr))) = [Thread 1]
   \<and> fst ` set (handled (snd (srv_run (snd (for_each_city cs (start_server_thread addr))))))
       \<subseteq> {Thread 1}"
  using for_each_city_threads [of cs "start_server_thread addr"]
  by (simp add: start_server_thread_def run_weather_server_def server_socket_def)

theorem one_thread_serves_all_witness:
  "threads (snd (main (\<lambda>n. (lit ''127.0.0.1'', 50000 + n)))) = [Thread 1]
   \<and> fst ` set (handled (snd (srv_run (snd (main (\<lambda>n. (lit ''127.0.0.1'', 50000 + n)))))))
       \<subseteq> {Thread 1}
   \<and> length (handled (snd (srv_run (snd (main (\<lambda>n. (lit ''127.0.0.1'', 50000 + n))))))) = 5"
proof -
  have "length (handled (snd (srv_run (snd (main (\<lambda>n. (lit ''127.0.0.1'', 50000 + n))))))) = 5"
    by (simp add: main_run)
  with one_thread_serves_all [of cities "\<lambda>n. (lit ''127.0.0.1'', 50000 + n)"]
  show ?thesis by (simp only: main_def) 
qed

section \<open>The notebook's cells\<close>

lemma notebook_length: "length notebook = 14"
  by (simp add: notebook_def)

lemma all_resolve: "list_all resolves [0..<14]"
  by (simp add: resolves_def bound_after_def notebook_def builtins_def upt_rec [of _ "numeral k" for k] upt_rec [of _ "Suc k" for k])

text \<open>
  C7, as the specification states it, fails: the cell that defines \<open>main\<close> refers to
  \<open>fetch_data\<close>, which the cell before it defines, and the cell that defines
  \<open>task_operations_demo\<close> refers to \<open>long_operation\<close> in the same way.
\<close>

theorem cell_of_main_not_self_contained:
  "\<not> self_contained (notebook ! 2)
   \<and> ''fetch_data'' \<in> set (refers (notebook ! 2))
   \<and> ''fetch_data'' \<notin> set (binds (notebook ! 2) @ builtins)
   \<and> \<not> self_contained (notebook ! 4)
   \<and> ''long_operation'' \<in> set (refers (notebook ! 4))
   \<and> ''long_operation'' \<notin> set (binds (notebook ! 4) @ builtins)"
  by (simp add: self_contained_def notebook_def builtins_def)

text \<open>
  C7, amended. Only the first code cell is self-contained. Every code cell refers only to
  built-in names and to names that it or an earlier cell binds: definitions flow forward
  from cell to cell, and nothing flows backward.
\<close>

theorem cells_resolve_in_order:
  "self_contained (notebook ! 0)
   \<and> filter self_contained notebook = [notebook ! 0]
   \<and> (i < length notebook \<longrightarrow> resolves i)"
proof -
  have "self_contained (notebook ! 0)"
    by (simp add: self_contained_def notebook_def builtins_def)
  moreover have "filter self_contained notebook = [notebook ! 0]"
    by (simp add: self_contained_def notebook_def builtins_def)
  moreover have "i < length notebook \<longrightarrow> resolves i"
    using all_resolve by (simp add: notebook_length list_all_iff)
  ultimately show ?thesis by blast
qed

theorem cells_resolve_in_order_witness:
  "(2::nat) < length notebook \<and> resolves 2 \<and> self_contained (notebook ! 0)"
  using cells_resolve_in_order [of 2] by (simp add: notebook_length)

end
